theory Spec2Isabelle
  imports Main "HOL-Library.Word"
begin

section \<open>GridFS bucket (mongo/gridfs/bucket.go)\<close>

text \<open>
  A shallow embedding of the bucket operations of \<^verbatim>\<open>mongo/gridfs/bucket.go\<close>. The
  document store is an explicit state (the two collections and their indexes), every
  call that leaves the bucket code is appended to a trace, and an oracle decides which
  of these calls fail, so that each early return of the Go code is a branch of the
  model. Contexts and deadlines are not modelled beyond that: a deadline that expires
  is one of the ways in which a call fails. A Go \<open>error\<close> result is an
  \<open>error option\<close>, with \<open>None\<close> for \<open>nil\<close>.
\<close>

subsection \<open>Values and documents\<close>

type_synonym int32 = "32 word"
type_synonym int64 = "64 word"
type_synonym byte = "8 word"

text \<open>
  BSON values as far as the bucket inspects them. A double is kept as its 64 bits
  (IEEE 754 binary64), so that two values are equal exactly when their encodings are.
\<close>

datatype bson_value =
    BInt32 int32
  | BInt64 int64
  | BDouble int64
  | BDecimal128 "128 word"
  | BString string

type_synonym bson_doc = "(string \<times> bson_value) list"

text \<open>
  The errors: those of this package (\<open>ErrFileNotFound\<close>, \<open>ErrMissingChunkSize\<close>),
  those of the packages it calls (\<open>mongo.ErrNoDocuments\<close>, the stream errors, the error
  of a lookup in a document, \<open>io.EOF\<close>), the failure of a call decided by the oracle
  (\<open>StoreError\<close>), an error of the source of an upload other than \<open>io.EOF\<close>
  (\<open>SourceError\<close>), and the wrapping of a decoding error.
\<close>

datatype error =
    ErrFileNotFound
  | ErrMissingChunkSize
  | ErrNoDocuments
  | ErrStreamClosed
  | ErrCorruptFile
  | ErrElementNotFound
  | EOF
  | StoreError nat
  | SourceError nat
  | DecodeError error

datatype readpref = Primary | PrimaryPreferred | Secondary | SecondaryPreferred | Nearest

datatype coll_kind = FilesColl | ChunksColl

text \<open>
  A collection handle: \<open>db.Collection(b.name + ".files", collOpts)\<close> is the handle
  with bucket name \<open>b.name\<close>, kind \<open>FilesColl\<close> and the read preference of \<open>collOpts\<close>.
\<close>

record collection =
  coll_bucket :: string
  coll_kind :: coll_kind
  coll_rp :: readpref

text \<open>The files collection document (section 3 of the specification).\<close>

record file_doc =
  fd_id :: nat
  fd_length :: int
  fd_chunkSize :: "int32 option"
  fd_uploadDate :: int
  fd_filename :: string
  fd_metadata :: "bson_doc option"

record chunk_doc =
  cd_filesId :: nat
  cd_n :: nat
  cd_data :: "byte list"

text \<open>An entry of an index listing: the index name and, when present, its key document.\<close>

record index_doc =
  ix_name :: string
  ix_key :: "bson_doc option"

record index_model =
  im_keys :: bson_doc
  im_unique :: "bool option"

datatype doc_filter = FAll | FId nat | FFilename string | FFilesId nat

record find_options =
  fo_skip :: "int64 option"
  fo_sort :: "bson_doc option"

subsection \<open>The trace and the document store\<close>

datatype oper =
    OpFind doc_filter find_options
  | OpFindOne doc_filter bson_doc
  | OpDeleteOne doc_filter
  | OpDeleteMany doc_filter
  | OpInsertChunk chunk_doc
  | OpInsertFile file_doc
  | OpListIndexes
  | OpCreateIndex index_model

datatype stream_call = UsSetWriteDeadline | UsWrite "byte list" | UsClose | UsAbort
  | DsSetReadDeadline | DsCopy | DsClose

datatype event =
    Call collection oper
  | CloneColl collection readpref
  | CursorClose
  | CursorDecode
  | Marshal
  | Unmarshal
  | SrcRead "byte list" "error option"
  | SinkWrite "byte list"
  | Invoke stream_call
  | Return stream_call "error option"

text \<open>
  The world outside the bucket: the content of the two collections, their indexes, the
  trace of everything the bucket code has done so far, and the oracle \<open>faults\<close>: the
  call that is made when the trace has length \<open>k\<close> fails with \<open>StoreError c\<close> when
  \<open>faults k = Some c\<close>. A call that fails leaves the collections as they were. A
  cursor holds the complete reply of its query, so stepping through it does not
  contact the store again. \<open>clock\<close> is the time stamped on a document written now.
\<close>

record world =
  files :: "file_doc list"
  chunks :: "chunk_doc list"
  filesIndexes :: "index_doc list"
  chunksIndexes :: "index_doc list"
  clock :: int
  trace :: "event list"
  faults :: "nat \<Rightarrow> nat option"

definition emit :: "event \<Rightarrow> world \<Rightarrow> world" where
  "emit ev w = w\<lparr>trace := trace w @ [ev]\<rparr>"

definition ext_call :: "event \<Rightarrow> world \<Rightarrow> nat option \<times> world" where
  "ext_call ev w = (faults w (length (trace w)), emit ev w)"

fun matches_file :: "doc_filter \<Rightarrow> file_doc \<Rightarrow> bool" where
  "matches_file FAll d = True"
| "matches_file (FId i) d = (fd_id d = i)"
| "matches_file (FFilename s) d = (fd_filename d = s)"
| "matches_file (FFilesId i) d = False"

fun matches_chunk :: "doc_filter \<Rightarrow> chunk_doc \<Rightarrow> bool" where
  "matches_chunk FAll c = True"
| "matches_chunk (FFilesId i) c = (cd_filesId c = i)"
| "matches_chunk (FId i) c = False"
| "matches_chunk (FFilename s) c = False"

text \<open>
  Modelled from the spec: the Document Store's \<open>find(filter, sort?, skip?)\<close> on the
  files collection, which is not part of this package. The only sort the bucket asks
  for is by \<open>uploadDate\<close>, ascending for a positive direction and descending otherwise.
\<close>

definition sort_files :: "bson_doc option \<Rightarrow> file_doc list \<Rightarrow> file_doc list" where
  "sort_files s ds =
     (case s of
        Some [(k, BInt32 dir)] \<Rightarrow>
          (if k = ''uploadDate''
           then (if 0 < sint dir then sort_key fd_uploadDate ds
                 else rev (sort_key fd_uploadDate ds))
           else ds)
      | _ \<Rightarrow> ds)"

definition skip_docs :: "int64 option \<Rightarrow> 'a list \<Rightarrow> 'a list" where
  "skip_docs s ds = (case s of None \<Rightarrow> ds | Some n \<Rightarrow> drop (nat (sint n)) ds)"

definition find_files :: "doc_filter \<Rightarrow> find_options option \<Rightarrow> file_doc list \<Rightarrow> file_doc list" where
  "find_files flt opts ds =
     (case opts of
        None \<Rightarrow> filter (matches_file flt) ds
      | Some fo \<Rightarrow> skip_docs (fo_skip fo) (sort_files (fo_sort fo) (filter (matches_file flt) ds)))"

definition no_find_options :: find_options where
  "no_find_options = \<lparr>fo_skip = None, fo_sort = None\<rparr>"

text \<open>
  Modelled from the spec: \<open>find\<close> of the Document Store on the files collection; the
  cursor is the list of the results.
\<close>

definition FindFiles ::
  "collection \<Rightarrow> doc_filter \<Rightarrow> find_options option \<Rightarrow> world \<Rightarrow> (error + file_doc list) \<times> world" where
  "FindFiles c flt opts w =
     (case ext_call (Call c (OpFind flt (case opts of None \<Rightarrow> no_find_options | Some fo \<Rightarrow> fo))) w of
        (Some k, w') \<Rightarrow> (Inl (StoreError k), w')
      | (None, w') \<Rightarrow> (Inr (find_files flt opts (files w')), w'))"

text \<open>
  Modelled from the spec: \<open>find\<close> of the Document Store on the chunks collection with
  the sort \<open>{n: 1}\<close>: the chunks of the file in the order of their sequence number.
\<close>

definition FindChunks ::
  "collection \<Rightarrow> doc_filter \<Rightarrow> world \<Rightarrow> (error + chunk_doc list) \<times> world" where
  "FindChunks c flt w =
     (case ext_call (Call c (OpFind flt \<lparr>fo_skip = None, fo_sort = Some [(''n'', BInt32 1)]\<rparr>)) w of
        (Some k, w') \<Rightarrow> (Inl (StoreError k), w')
      | (None, w') \<Rightarrow> (Inr (sort_key cd_n (filter (matches_chunk flt) (chunks w'))), w'))"

subsection \<open>The bucket\<close>

text \<open>
  The fields of \<open>Bucket\<close>. The database handle, the write and read concerns and the
  two buffers are left out: the concerns are not inspected by the bucket code, and a
  read of a source delivers its bytes as a list.
\<close>

record bucket =
  chunksColl :: collection
  filesColl :: collection
  name :: string
  chunkSize :: int32
  rp :: readpref
  firstWriteDone :: bool
  readDeadline :: nat
  writeDeadline :: nat

subsection \<open>Creating a bucket\<close>

record bucket_options =
  bo_name :: "string option"
  bo_chunkSizeBytes :: "int32 option"
  bo_readPreference :: "readpref option"

definition DefaultChunkSize :: int32 where
  "DefaultChunkSize = 255 * 1024"

text \<open>
  \<open>NewBucket\<close>: \<open>db_rp\<close> is the read preference of the database and \<open>bo\<close> the result of
  merging the options. The write and read concerns travel with the handles in the same
  way as the read preference and are left out.
\<close>

definition NewBucket :: "readpref \<Rightarrow> bucket_options \<Rightarrow> bucket" where
  "NewBucket db_rp bo =
     (let nm = (case bo_name bo of None \<Rightarrow> ''fs'' | Some n \<Rightarrow> n);
          cs = (case bo_chunkSizeBytes bo of None \<Rightarrow> DefaultChunkSize | Some c \<Rightarrow> c);
          r = (case bo_readPreference bo of None \<Rightarrow> db_rp | Some p \<Rightarrow> p)
      in \<lparr>chunksColl = \<lparr>coll_bucket = nm, coll_kind = ChunksColl, coll_rp = r\<rparr>,
          filesColl = \<lparr>coll_bucket = nm, coll_kind = FilesColl, coll_rp = r\<rparr>,
          name = nm, chunkSize = cs, rp = r, firstWriteDone = False,
          readDeadline = 0, writeDeadline = 0\<rparr>)"

text \<open>The handles of a bucket made by \<open>NewBucket\<close> address its two collections.\<close>

definition bucket_handles_ok :: "bucket \<Rightarrow> bool" where
  "bucket_handles_ok b =
     (coll_kind (filesColl b) = FilesColl \<and> coll_kind (chunksColl b) = ChunksColl)"

subsection \<open>Opening a download stream\<close>

text \<open>
  Modelled from the spec: the \<open>File\<close> value a download stream is built from, and the
  download stream itself (download_stream.go is not part of the sources at hand). A
  stream is constructed from the metadata and, for a file that has content, a cursor
  over its chunks.
\<close>

record file_info =
  fi_id :: nat
  fi_length :: int
  fi_chunkSize :: int32
  fi_uploadDate :: int
  fi_name :: string
  fi_metadata :: "bson_doc option"

text \<open>
  Modelled from the spec: decoding a files collection document into a \<open>File\<close>; a
  missing \<open>chunkSize\<close> decodes to 0.
\<close>

definition decode_file :: "file_doc \<Rightarrow> file_info" where
  "decode_file d =
     \<lparr>fi_id = fd_id d, fi_length = fd_length d,
      fi_chunkSize = (case fd_chunkSize d of None \<Rightarrow> 0 | Some c \<Rightarrow> c),
      fi_uploadDate = fd_uploadDate d, fi_name = fd_filename d,
      fi_metadata = fd_metadata d\<rparr>"

record download_stream =
  ds_cursor :: "chunk_doc list option"
  ds_chunkSize :: int32
  ds_file :: file_info
  ds_closed :: bool
  ds_readDeadline :: nat

text \<open>Modelled from the spec: the constructor of a download stream.\<close>

definition newDownloadStream :: "chunk_doc list option \<Rightarrow> int32 \<Rightarrow> file_info \<Rightarrow> download_stream" where
  "newDownloadStream cursor cs f =
     \<lparr>ds_cursor = cursor, ds_chunkSize = cs, ds_file = f, ds_closed = False, ds_readDeadline = 0\<rparr>"

text \<open>
  \<open>findFile\<close>: run the query on the files collection and step to the first result; with
  no result the cursor is closed and \<open>ErrFileNotFound\<close> is returned. The value returned
  is the document the cursor stands on.
\<close>

definition findFile ::
  "bucket \<Rightarrow> doc_filter \<Rightarrow> find_options option \<Rightarrow> world \<Rightarrow> (error + file_doc) \<times> world" where
  "findFile b flt opts w =
     (case FindFiles (filesColl b) flt opts w of
        (Inl err, w1) \<Rightarrow> (Inl err, w1)
      | (Inr cursor, w1) \<Rightarrow>
          (case cursor of
             [] \<Rightarrow> (Inl ErrFileNotFound, emit CursorClose w1)
           | d # _ \<Rightarrow> (Inr d, w1)))"

definition findChunks :: "bucket \<Rightarrow> nat \<Rightarrow> world \<Rightarrow> (error + chunk_doc list) \<times> world" where
  "findChunks b fileID w = FindChunks (chunksColl b) (FFilesId fileID) w"

definition openDownloadStream ::
  "bucket \<Rightarrow> doc_filter \<Rightarrow> find_options option \<Rightarrow> world \<Rightarrow> (error + download_stream) \<times> world" where
  "openDownloadStream b flt opts w =
     (case findFile b flt opts w of
        (Inl err, w1) \<Rightarrow> (Inl err, w1)
      | (Inr current, w1) \<Rightarrow>
          (case ext_call CursorDecode w1 of
             (Some k, w2) \<Rightarrow> (Inl (DecodeError (StoreError k)), w2)
           | (None, w2) \<Rightarrow>
               (let foundFile = decode_file current in
                if fi_length foundFile = 0
                then (Inr (newDownloadStream None (fi_chunkSize foundFile) foundFile), w2)
                else if fd_chunkSize current = None
                then (Inl ErrMissingChunkSize, w2)
                else
                  (case findChunks b (fi_id foundFile) w2 of
                     (Inl err, w3) \<Rightarrow> (Inl err, w3)
                   | (Inr chunksCursor, w3) \<Rightarrow>
                       (Inr (newDownloadStream (Some chunksCursor) (fi_chunkSize foundFile) foundFile),
                        w3)))))"

definition OpenDownloadStream :: "bucket \<Rightarrow> nat \<Rightarrow> world \<Rightarrow> (error + download_stream) \<times> world" where
  "OpenDownloadStream b fileID w = openDownloadStream b (FId fileID) None w"

text \<open>
  The options of the lookup by name (lines 210 to 223): \<open>revision\<close> is the
  \<open>Revision\<close> field of the merged name options, and the arithmetic is that of \<open>int32\<close>.
\<close>

definition nameFindOptions :: "int32 option \<Rightarrow> find_options" where
  "nameFindOptions revision =
     (let numSkip0 = (case revision of None \<Rightarrow> - 1 | Some r \<Rightarrow> r);
          sortOrder = (if sint numSkip0 < 0 then - 1 else 1 :: int32);
          numSkip = (if sint numSkip0 < 0 then (- 1 * numSkip0) - 1 else numSkip0)
      in \<lparr>fo_skip = Some (scast numSkip), fo_sort = Some [(''uploadDate'', BInt32 sortOrder)]\<rparr>)"

definition OpenDownloadStreamByName ::
  "bucket \<Rightarrow> string \<Rightarrow> int32 option \<Rightarrow> world \<Rightarrow> (error + download_stream) \<times> world" where
  "OpenDownloadStreamByName b filename revision w =
     openDownloadStream b (FFilename filename) (Some (nameFindOptions revision)) w"

subsection \<open>Deleting a file\<close>

fun remove_first :: "('a \<Rightarrow> bool) \<Rightarrow> 'a list \<Rightarrow> 'a list" where
  "remove_first P [] = []"
| "remove_first P (x # xs) = (if P x then xs else x # remove_first P xs)"

text \<open>
  Modelled from the spec: \<open>deleteOne(filter) -> deletedCount\<close> on the files collection
  and \<open>deleteMany(filter) -> deletedCount\<close> on the chunks collection of the Document
  Store.
\<close>

definition DeleteOne :: "collection \<Rightarrow> doc_filter \<Rightarrow> world \<Rightarrow> (error + nat) \<times> world" where
  "DeleteOne c flt w =
     (case ext_call (Call c (OpDeleteOne flt)) w of
        (Some k, w') \<Rightarrow> (Inl (StoreError k), w')
      | (None, w') \<Rightarrow>
          (if list_ex (matches_file flt) (files w')
           then (Inr 1, w'\<lparr>files := remove_first (matches_file flt) (files w')\<rparr>)
           else (Inr 0, w')))"

definition DeleteMany :: "collection \<Rightarrow> doc_filter \<Rightarrow> world \<Rightarrow> (error + nat) \<times> world" where
  "DeleteMany c flt w =
     (case ext_call (Call c (OpDeleteMany flt)) w of
        (Some k, w') \<Rightarrow> (Inl (StoreError k), w')
      | (None, w') \<Rightarrow>
          (Inr (length (filter (matches_chunk flt) (chunks w'))),
           w'\<lparr>chunks := filter (\<lambda>c. \<not> matches_chunk flt c) (chunks w')\<rparr>))"

definition deleteChunks :: "bucket \<Rightarrow> nat \<Rightarrow> world \<Rightarrow> error option \<times> world" where
  "deleteChunks b fileID w =
     (case DeleteMany (chunksColl b) (FFilesId fileID) w of
        (Inl err, w') \<Rightarrow> (Some err, w')
      | (Inr _, w') \<Rightarrow> (None, w'))"

definition DeleteContext :: "bucket \<Rightarrow> nat \<Rightarrow> world \<Rightarrow> error option \<times> world" where
  "DeleteContext b fileID w =
     (case DeleteOne (filesColl b) (FId fileID) w of
        (res, w1) \<Rightarrow>
          (let err = (case res of
                        Inl e \<Rightarrow> Some e
                      | Inr deletedCount \<Rightarrow> if deletedCount = 0 then Some ErrFileNotFound else None)
           in case err of
                Some e \<Rightarrow> (case deleteChunks b fileID w1 of (_, w2) \<Rightarrow> (Some e, w2))
              | None \<Rightarrow> deleteChunks b fileID w1))"

definition Delete :: "bucket \<Rightarrow> nat \<Rightarrow> world \<Rightarrow> error option \<times> world" where
  "Delete b fileID w = DeleteContext b fileID w"

subsection \<open>Index provisioning\<close>

text \<open>
  Modelled from the spec: the integer a double is numerically equal to under the
  conversion to \<open>int64\<close>: the value of the 64 bits, truncated towards zero.
  Infinities and NaN have no integer value; the conversion then gives the least
  \<open>int64\<close>, as it does on the common platforms.
\<close>

definition double_to_int64 :: "int64 \<Rightarrow> int64" where
  "double_to_int64 bits =
     (let ex = (uint bits div 2 ^ 52) mod 2048;
          fr = uint bits mod 2 ^ 52;
          m = (if ex = 0 then fr else 2 ^ 52 + fr);
          e = (if ex = 0 then - 1074 else ex - 1075);
          mag = (if 0 \<le> e then m * 2 ^ nat e else m div 2 ^ nat (- e))
      in if ex = 2047 then word_of_int (- (2 ^ 63))
         else if bit bits 63 then word_of_int (- mag) else word_of_int mag)"

text \<open>
  Modelled from the spec: the numeric reading of an index key value
  (\<open>bsoncore.Value.AsInt64OK\<close> is not part of the sources at hand): the 32 and 64 bit
  integers and the doubles have one, no other value has.
\<close>

fun asInt64OK :: "bson_value \<Rightarrow> int64 option" where
  "asInt64OK (BInt32 v) = Some (scast v)"
| "asInt64OK (BInt64 v) = Some v"
| "asInt64OK (BDouble bits) = Some (double_to_int64 bits)"
| "asInt64OK (BDecimal128 v) = None"
| "asInt64OK (BString v) = None"

text \<open>
  The loop of \<open>numericalIndexDocsEqual\<close> over the elements of the expected document;
  it runs on documents with the same number of elements.
\<close>

fun elemsEqual :: "bson_doc \<Rightarrow> bson_doc \<Rightarrow> bool" where
  "elemsEqual [] actualElems = True"
| "elemsEqual (expectedElem # es) [] = False"
| "elemsEqual ((expectedKey, expectedVal) # es) ((actualKey, actualVal) # as) =
     (if actualKey \<noteq> expectedKey then False
      else (case (asInt64OK actualVal, asInt64OK expectedVal) of
              (Some actualInt, Some expectedInt) \<Rightarrow>
                (if actualInt \<noteq> expectedInt then False else elemsEqual es as)
            | _ \<Rightarrow> False))"

text \<open>
  Documents are kept as lists of elements, so the two calls of \<open>Elements()\<close>, which
  fail on bytes that are no document, always succeed here.
\<close>

definition numericalIndexDocsEqual :: "bson_doc \<Rightarrow> bson_doc \<Rightarrow> error + bool" where
  "numericalIndexDocsEqual expected actual =
     (if expected = actual then Inr True
      else if length actual \<noteq> length expected then Inr False
      else Inr (elemsEqual expected actual))"

text \<open>The loop over the index listing (lines 565 to 580).\<close>

fun indexListed :: "bson_doc \<Rightarrow> index_doc list \<Rightarrow> error + bool" where
  "indexListed modelKeysDoc [] = Inr False"
| "indexListed modelKeysDoc (current # rest) =
     (case ix_key current of
        None \<Rightarrow> Inl ErrElementNotFound
      | Some keyElemDoc \<Rightarrow>
          (case numericalIndexDocsEqual modelKeysDoc keyElemDoc of
             Inl err \<Rightarrow> Inl err
           | Inr found \<Rightarrow> if found then Inr True else indexListed modelKeysDoc rest))"

definition indexes_of :: "collection \<Rightarrow> world \<Rightarrow> index_doc list" where
  "indexes_of c w = (case coll_kind c of FilesColl \<Rightarrow> filesIndexes w | ChunksColl \<Rightarrow> chunksIndexes w)"

definition index_name :: "bson_doc \<Rightarrow> string" where
  "index_name keys = concat (map (\<lambda>(k, v). k @ ''_'') keys)"

text \<open>
  Modelled from the spec: \<open>listIndexes()\<close> and \<open>createIndex(keys, options)\<close> of the
  Document Store.
\<close>

definition ListIndexes :: "collection \<Rightarrow> world \<Rightarrow> (error + index_doc list) \<times> world" where
  "ListIndexes c w =
     (case ext_call (Call c OpListIndexes) w of
        (Some k, w') \<Rightarrow> (Inl (StoreError k), w')
      | (None, w') \<Rightarrow> (Inr (indexes_of c w'), w'))"

definition CreateOne :: "collection \<Rightarrow> index_model \<Rightarrow> world \<Rightarrow> error option \<times> world" where
  "CreateOne c model w =
     (case ext_call (Call c (OpCreateIndex model)) w of
        (Some k, w') \<Rightarrow> (Some (StoreError k), w')
      | (None, w') \<Rightarrow>
          (let d = \<lparr>ix_name = index_name (im_keys model), ix_key = Some (im_keys model)\<rparr>
           in (None,
               case coll_kind c of
                 FilesColl \<Rightarrow> w'\<lparr>filesIndexes := filesIndexes w' @ [d]\<rparr>
               | ChunksColl \<Rightarrow> w'\<lparr>chunksIndexes := chunksIndexes w' @ [d]\<rparr>)))"

text \<open>
  \<open>createNumericalIndexIfNotExists\<close>: \<open>iv\<close> is the index view of a collection. The
  deferred \<open>c.Close\<close> runs on every path that has listed the indexes.
\<close>

definition createNumericalIndexIfNotExists ::
  "collection \<Rightarrow> index_model \<Rightarrow> world \<Rightarrow> error option \<times> world" where
  "createNumericalIndexIfNotExists iv model w =
     (case ListIndexes iv w of
        (Inl err, w1) \<Rightarrow> (Some err, w1)
      | (Inr c, w1) \<Rightarrow>
          (case ext_call Marshal w1 of
             (Some k, w2) \<Rightarrow> (Some (StoreError k), emit CursorClose w2)
           | (None, w2) \<Rightarrow>
               (case indexListed (im_keys model) c of
                  Inl err \<Rightarrow> (Some err, emit CursorClose w2)
                | Inr found \<Rightarrow>
                    if found then (None, emit CursorClose w2)
                    else (case CreateOne iv model w2 of
                            (err, w3) \<Rightarrow> (err, emit CursorClose w3)))))"

text \<open>
  Modelled from the spec: \<open>FindOne\<close> of the Document Store on the files collection,
  which reports \<open>ErrNoDocuments\<close> when nothing matches.
\<close>

definition FindOne ::
  "collection \<Rightarrow> doc_filter \<Rightarrow> bson_doc \<Rightarrow> world \<Rightarrow> (error + file_doc) \<times> world" where
  "FindOne c flt projection w =
     (case ext_call (Call c (OpFindOne flt projection)) w of
        (Some k, w') \<Rightarrow> (Inl (StoreError k), w')
      | (None, w') \<Rightarrow>
          (case filter (matches_file flt) (files w') of
             [] \<Rightarrow> (Inl ErrNoDocuments, w')
           | d # _ \<Rightarrow> (Inr d, w')))"

definition filesModel :: index_model where
  "filesModel = \<lparr>im_keys = [(''filename'', BInt32 1), (''uploadDate'', BInt32 1)], im_unique = None\<rparr>"

definition chunksModel :: index_model where
  "chunksModel = \<lparr>im_keys = [(''files_id'', BInt32 1), (''n'', BInt32 1)], im_unique = Some True\<rparr>"

definition createIndexes :: "bucket \<Rightarrow> world \<Rightarrow> error option \<times> world" where
  "createIndexes b w =
     (case ext_call (CloneColl (filesColl b) Primary) w of
        (Some k, w1) \<Rightarrow> (Some (StoreError k), w1)
      | (None, w1) \<Rightarrow>
          (let cloned = (filesColl b)\<lparr>coll_rp := Primary\<rparr> in
           case FindOne cloned FAll [(''_id'', BInt32 1)] w1 of
             (Inr _, w2) \<Rightarrow> (None, w2)
           | (Inl err, w2) \<Rightarrow>
               if err \<noteq> ErrNoDocuments then (Some err, w2)
               else (case createNumericalIndexIfNotExists (filesColl b) filesModel w2 of
                       (Some err, w3) \<Rightarrow> (Some err, w3)
                     | (None, w3) \<Rightarrow> createNumericalIndexIfNotExists (chunksColl b) chunksModel w3)))"

definition checkFirstWrite :: "bucket \<Rightarrow> world \<Rightarrow> error option \<times> bucket \<times> world" where
  "checkFirstWrite b w =
     (if \<not> firstWriteDone b
      then (case createIndexes b w of
              (Some err, w') \<Rightarrow> (Some err, b, w')
            | (None, w') \<Rightarrow> (None, b\<lparr>firstWriteDone := True\<rparr>, w'))
      else (None, b, w))"

text \<open>
  The comparison of two key specifications in the words of the specification: field
  by field, the same key and numerically equal values. This is what
  \<open>numericalIndexDocsEqual\<close> is compared with below.
\<close>

definition keys_numerically_equal :: "bson_doc \<Rightarrow> bson_doc \<Rightarrow> bool" where
  "keys_numerically_equal expected actual =
     list_all2 (\<lambda>(ek, ev) (ak, av). ak = ek \<and>
        (case (asInt64OK av, asInt64OK ev) of (Some a, Some e) \<Rightarrow> a = e | _ \<Rightarrow> False))
       expected actual"

text \<open>The index that \<open>CreateOne\<close> adds for a model.\<close>

definition index_of_model :: "index_model \<Rightarrow> index_doc" where
  "index_of_model model = \<lparr>ix_name = index_name (im_keys model), ix_key = Some (im_keys model)\<rparr>"

text \<open>One run of the index provisioning adds at most the index of the model.\<close>

definition grows_by :: "index_model \<Rightarrow> index_doc list \<Rightarrow> index_doc list \<Rightarrow> bool" where
  "grows_by m xs ys =
     (ys = xs \<or> (ys = xs @ [index_of_model m] \<and> indexListed (im_keys m) xs = Inr False))"

subsection \<open>Upload streams\<close>

record upload_options =
  uo_chunkSizeBytes :: "int32 option"
  uo_metadata :: "bson_doc option"

record upload =
  up_chunkSize :: int32
  up_metadata :: "bson_doc option"

text \<open>
  \<open>parseUploadOptions\<close>: \<open>uo\<close> is the result of merging the options. The metadata
  goes through a marshal and an unmarshal, each of which may fail.
\<close>

definition parseUploadOptions ::
  "bucket \<Rightarrow> upload_options \<Rightarrow> world \<Rightarrow> (error + upload) \<times> world" where
  "parseUploadOptions b uo w =
     (let cs = (case uo_chunkSizeBytes uo of None \<Rightarrow> chunkSize b | Some c \<Rightarrow> c) in
      case uo_metadata uo of
        None \<Rightarrow> (Inr \<lparr>up_chunkSize = cs, up_metadata = None\<rparr>, w)
      | Some md \<Rightarrow>
          (case ext_call Marshal w of
             (Some k, w1) \<Rightarrow> (Inl (StoreError k), w1)
           | (None, w1) \<Rightarrow>
               (case ext_call Unmarshal w1 of
                  (Some k, w2) \<Rightarrow> (Inl (StoreError k), w2)
                | (None, w2) \<Rightarrow> (Inr \<lparr>up_chunkSize = cs, up_metadata = Some md\<rparr>, w2))))"

datatype stream_state = Open | Closed | Aborted

text \<open>
  Modelled from the spec: the Upload Stream of section 4.2 (upload_stream.go is not
  part of the sources at hand), a state machine over \<open>Open\<close>, \<open>Closed\<close> and \<open>Aborted\<close>
  with a buffer of the bytes not yet persisted, the next sequence number and the
  number of bytes persisted so far.
\<close>

record upload_stream =
  us_upload :: upload
  us_fileID :: nat
  us_filename :: string
  us_chunksColl :: collection
  us_filesColl :: collection
  us_state :: stream_state
  us_buffer :: "byte list"
  us_nextSequence :: nat
  us_fileLen :: nat
  us_writeDeadline :: nat

text \<open>Modelled from the spec: a new upload stream is \<open>Open\<close> and has written nothing.\<close>

definition newUploadStream ::
  "upload \<Rightarrow> nat \<Rightarrow> string \<Rightarrow> collection \<Rightarrow> collection \<Rightarrow> upload_stream" where
  "newUploadStream up fileID fname chunksC filesC =
     \<lparr>us_upload = up, us_fileID = fileID, us_filename = fname, us_chunksColl = chunksC,
      us_filesColl = filesC, us_state = Open, us_buffer = [], us_nextSequence = 0,
      us_fileLen = 0, us_writeDeadline = 0\<rparr>"

text \<open>Modelled from the spec: \<open>insertOne(doc)\<close> of the Document Store.\<close>

definition InsertChunk :: "collection \<Rightarrow> chunk_doc \<Rightarrow> world \<Rightarrow> error option \<times> world" where
  "InsertChunk c d w =
     (case ext_call (Call c (OpInsertChunk d)) w of
        (Some k, w') \<Rightarrow> (Some (StoreError k), w')
      | (None, w') \<Rightarrow> (None, w'\<lparr>chunks := chunks w' @ [d]\<rparr>))"

definition InsertFile :: "collection \<Rightarrow> file_doc \<Rightarrow> world \<Rightarrow> error option \<times> world" where
  "InsertFile c d w =
     (case ext_call (Call c (OpInsertFile d)) w of
        (Some k, w') \<Rightarrow> (Some (StoreError k), w')
      | (None, w') \<Rightarrow> (None, w'\<lparr>files := files w' @ [d]\<rparr>))"

definition us_chunkLen :: "upload_stream \<Rightarrow> nat" where
  "us_chunkLen us = nat (sint (up_chunkSize (us_upload us)))"

text \<open>
  Modelled from the spec: persist the first \<open>k\<close> buffered bytes as the chunk with the
  next sequence number.
\<close>

definition persistChunk :: "nat \<Rightarrow> upload_stream \<Rightarrow> world \<Rightarrow> error option \<times> upload_stream \<times> world" where
  "persistChunk k us w =
     (case InsertChunk (us_chunksColl us)
             \<lparr>cd_filesId = us_fileID us, cd_n = us_nextSequence us, cd_data = take k (us_buffer us)\<rparr> w of
        (Some err, w') \<Rightarrow> (Some err, us, w')
      | (None, w') \<Rightarrow>
          (None,
           us\<lparr>us_buffer := drop k (us_buffer us),
              us_nextSequence := Suc (us_nextSequence us),
              us_fileLen := us_fileLen us + length (take k (us_buffer us))\<rparr>,
           w'))"

text \<open>
  Modelled from the spec: whenever the buffer has reached the chunk size, a full chunk
  is persisted. A chunk size that is not positive persists nothing before the stream
  is closed.
\<close>

function flushFull :: "upload_stream \<Rightarrow> world \<Rightarrow> error option \<times> upload_stream \<times> world" where
  "flushFull us w =
     (if 0 < us_chunkLen us \<and> us_chunkLen us \<le> length (us_buffer us)
      then (case persistChunk (us_chunkLen us) us w of
              (Some err, us', w') \<Rightarrow> (Some err, us', w')
            | (None, us', w') \<Rightarrow> flushFull us' w')
      else (None, us, w))"
  by pat_completeness auto
termination
  by (relation "measure (\<lambda>(us, w). length (us_buffer us))")
     (auto simp: persistChunk_def split: prod.splits option.splits)

text \<open>
  Modelled from the spec: \<open>Write\<close> appends to the buffer and persists the full chunks;
  on a stream that is not \<open>Open\<close> it fails with \<open>ErrStreamClosed\<close>.
\<close>

definition usWrite :: "upload_stream \<Rightarrow> byte list \<Rightarrow> world \<Rightarrow> error option \<times> upload_stream \<times> world" where
  "usWrite us p w =
     (let w0 = emit (Invoke (UsWrite p)) w in
      case (if us_state us \<noteq> Open then (Some ErrStreamClosed, us, w0)
            else flushFull (us\<lparr>us_buffer := us_buffer us @ p\<rparr>) w0) of
        (err, us', w') \<Rightarrow> (err, us', emit (Return (UsWrite p) err) w'))"

text \<open>
  Modelled from the spec: \<open>Close\<close> persists what is left in the buffer as the last
  chunk and then inserts the metadata document; the stream is \<open>Closed\<close> once both
  have succeeded.
\<close>

definition usClose :: "upload_stream \<Rightarrow> world \<Rightarrow> error option \<times> upload_stream \<times> world" where
  "usClose us w =
     (let w0 = emit (Invoke UsClose) w in
      case (if us_state us \<noteq> Open then (Some ErrStreamClosed, us, w0)
            else (case (if us_buffer us \<noteq> [] then persistChunk (length (us_buffer us)) us w0
                        else (None, us, w0)) of
                    (Some err, us1, w1) \<Rightarrow> (Some err, us1, w1)
                  | (None, us1, w1) \<Rightarrow>
                      (case InsertFile (us_filesColl us1)
                              \<lparr>fd_id = us_fileID us1, fd_length = int (us_fileLen us1),
                               fd_chunkSize = Some (up_chunkSize (us_upload us1)),
                               fd_uploadDate = clock w1, fd_filename = us_filename us1,
                               fd_metadata = up_metadata (us_upload us1)\<rparr> w1 of
                         (Some err, w2) \<Rightarrow> (Some err, us1, w2)
                       | (None, w2) \<Rightarrow> (None, us1\<lparr>us_state := Closed\<rparr>, w2)))) of
        (err, us', w') \<Rightarrow> (err, us', emit (Return UsClose err) w'))"

text \<open>
  Modelled from the spec: \<open>Abort\<close> deletes the chunks written for the file and
  discards the buffer; the stream is \<open>Aborted\<close> also when the delete fails.
\<close>

definition usAbort :: "upload_stream \<Rightarrow> world \<Rightarrow> error option \<times> upload_stream \<times> world" where
  "usAbort us w =
     (let w0 = emit (Invoke UsAbort) w in
      case (case us_state us of
              Closed \<Rightarrow> (Some ErrStreamClosed, us, w0)
            | Aborted \<Rightarrow> (None, us, w0)
            | Open \<Rightarrow>
                (case DeleteMany (us_chunksColl us) (FFilesId (us_fileID us)) w0 of
                   (res, w1) \<Rightarrow>
                     ((case res of Inl err \<Rightarrow> Some err | Inr _ \<Rightarrow> None),
                      us\<lparr>us_state := Aborted, us_buffer := []\<rparr>, w1))) of
        (err, us', w') \<Rightarrow> (err, us', emit (Return UsAbort err) w'))"

text \<open>Modelled from the spec: the deadline of a stream can be set while it is \<open>Open\<close>.\<close>

definition usSetWriteDeadline ::
  "upload_stream \<Rightarrow> nat \<Rightarrow> world \<Rightarrow> error option \<times> upload_stream \<times> world" where
  "usSetWriteDeadline us t w =
     (let w0 = emit (Invoke UsSetWriteDeadline) w in
      case (if us_state us \<noteq> Open then (Some ErrStreamClosed, us)
            else (None, us\<lparr>us_writeDeadline := t\<rparr>)) of
        (err, us') \<Rightarrow> (err, us', emit (Return UsSetWriteDeadline err) w0))"

subsection \<open>Uploading\<close>

definition OpenUploadStreamWithID ::
  "bucket \<Rightarrow> nat \<Rightarrow> string \<Rightarrow> upload_options \<Rightarrow> world \<Rightarrow> (error + upload_stream) \<times> bucket \<times> world" where
  "OpenUploadStreamWithID b fileID fname uo w =
     (case checkFirstWrite b w of
        (Some err, b1, w1) \<Rightarrow> (Inl err, b1, w1)
      | (None, b1, w1) \<Rightarrow>
          (case parseUploadOptions b1 uo w1 of
             (Inl err, w2) \<Rightarrow> (Inl err, b1, w2)
           | (Inr up, w2) \<Rightarrow>
               (Inr (newUploadStream up fileID fname (chunksColl b1) (filesColl b1)), b1, w2)))"

text \<open>
  A source is the list of the results of its reads, a number of bytes and an error
  each; once the list is used up a read returns no bytes and \<open>io.EOF\<close>.
\<close>

type_synonym source = "(byte list \<times> error option) list"

datatype loop_exit = Returned error | Broke

text \<open>The \<open>for\<close> loop of \<open>UploadFromStreamWithID\<close> (lines 165 to 182).\<close>

fun uploadLoop :: "upload_stream \<Rightarrow> source \<Rightarrow> world \<Rightarrow> loop_exit \<times> upload_stream \<times> world" where
  "uploadLoop us [] w = (Broke, us, emit (SrcRead [] (Some EOF)) w)"
| "uploadLoop us ((p, err) # rest) w =
     (let w1 = emit (SrcRead p err) w in
      case (case err of
              None \<Rightarrow> None
            | Some e \<Rightarrow> if e \<noteq> EOF then Some e else None) of
        Some e \<Rightarrow> (case usAbort us w1 of (_, us', w2) \<Rightarrow> (Returned e, us', w2))
      | None \<Rightarrow>
          (case (if p \<noteq> [] then usWrite us p w1 else (None, us, w1)) of
             (Some e, us', w2) \<Rightarrow> (Returned e, us', w2)
           | (None, us', w2) \<Rightarrow>
               if p = [] \<or> err = Some EOF then (Broke, us', w2)
               else uploadLoop us' rest w2))"

definition UploadFromStreamWithID ::
  "bucket \<Rightarrow> nat \<Rightarrow> string \<Rightarrow> source \<Rightarrow> upload_options \<Rightarrow> world \<Rightarrow> error option \<times> bucket \<times> world" where
  "UploadFromStreamWithID b fileID fname src uo w =
     (case OpenUploadStreamWithID b fileID fname uo w of
        (Inl err, b1, w1) \<Rightarrow> (Some err, b1, w1)
      | (Inr us, b1, w1) \<Rightarrow>
          (case usSetWriteDeadline us (writeDeadline b1) w1 of
             (Some err, us1, w2) \<Rightarrow>
               (case usClose us1 w2 of (_, us2, w3) \<Rightarrow> (Some err, b1, w3))
           | (None, us1, w2) \<Rightarrow>
               (case uploadLoop us1 src w2 of
                  (Returned err, us2, w3) \<Rightarrow> (Some err, b1, w3)
                | (Broke, us2, w3) \<Rightarrow>
                    (case usClose us2 w3 of (err, us3, w4) \<Rightarrow> (err, b1, w4)))))"

text \<open>
  \<open>OpenUploadStream\<close> and \<open>UploadFromStream\<close> make a new object id and go on with
  it; \<open>newID\<close> is the id that \<open>primitive.NewObjectID()\<close> returns.
\<close>

definition OpenUploadStream ::
  "bucket \<Rightarrow> nat \<Rightarrow> string \<Rightarrow> upload_options \<Rightarrow> world \<Rightarrow> (error + upload_stream) \<times> bucket \<times> world" where
  "OpenUploadStream b newID fname uo w = OpenUploadStreamWithID b newID fname uo w"

definition UploadFromStream ::
  "bucket \<Rightarrow> nat \<Rightarrow> string \<Rightarrow> source \<Rightarrow> upload_options \<Rightarrow> world \<Rightarrow> (nat \<times> error option) \<times> bucket \<times> world" where
  "UploadFromStream b newID fname src uo w =
     (case UploadFromStreamWithID b newID fname src uo w of
        (err, b', w') \<Rightarrow> ((newID, err), b', w'))"

subsection \<open>Downloading to a writer\<close>

text \<open>
  Modelled from the spec: what reading a Download Stream to its end yields (section
  4.3): the payloads of the chunks in the order of the cursor, where each chunk must
  carry the expected sequence number, every chunk but the last must have exactly the
  chunk size, and the payloads must add up to the declared length.
\<close>

fun readChunks :: "nat \<Rightarrow> nat \<Rightarrow> nat \<Rightarrow> chunk_doc list \<Rightarrow> error + byte list" where
  "readChunks expected remaining cs [] = (if remaining = 0 then Inr [] else Inl ErrCorruptFile)"
| "readChunks expected remaining cs (c # rest) =
     (if cd_n c \<noteq> expected then Inl ErrCorruptFile
      else if length (cd_data c) \<noteq> min cs remaining \<or> cd_data c = [] then Inl ErrCorruptFile
      else (case readChunks (Suc expected) (remaining - length (cd_data c)) cs rest of
              Inl err \<Rightarrow> Inl err
            | Inr bytes \<Rightarrow> Inr (cd_data c @ bytes)))"

text \<open>Modelled from the spec: the deadline of a stream can be set until it is closed.\<close>

definition dsSetReadDeadline ::
  "download_stream \<Rightarrow> nat \<Rightarrow> world \<Rightarrow> error option \<times> download_stream \<times> world" where
  "dsSetReadDeadline ds t w =
     (let w0 = emit (Invoke DsSetReadDeadline) w in
      case (if ds_closed ds then (Some ErrStreamClosed, ds)
            else (None, ds\<lparr>ds_readDeadline := t\<rparr>)) of
        (err, ds') \<Rightarrow> (err, ds', emit (Return DsSetReadDeadline err) w0))"

text \<open>
  Modelled from the spec: \<open>io.Copy(stream, ds)\<close>, which reads the content of the
  download stream to its end and writes it to the writer, whose write may fail.
\<close>

definition dsCopy :: "download_stream \<Rightarrow> world \<Rightarrow> (error + nat) \<times> download_stream \<times> world" where
  "dsCopy ds w =
     (let w0 = emit (Invoke DsCopy) w in
      case (if ds_closed ds then (Inl ErrStreamClosed, w0)
            else (case (case ds_cursor ds of
                          None \<Rightarrow> Inr []
                        | Some cursor \<Rightarrow>
                            readChunks 0 (nat (fi_length (ds_file ds)))
                              (nat (sint (ds_chunkSize ds))) cursor) of
                    Inl err \<Rightarrow> (Inl err, w0)
                  | Inr bytes \<Rightarrow>
                      (case ext_call (SinkWrite bytes) w0 of
                         (Some k, w1) \<Rightarrow> (Inl (StoreError k), w1)
                       | (None, w1) \<Rightarrow> (Inr (length bytes), w1)))) of
        (res, w') \<Rightarrow>
          (res, ds, emit (Return DsCopy (case res of Inl err \<Rightarrow> Some err | Inr _ \<Rightarrow> None)) w'))"

text \<open>Modelled from the spec: \<open>Close\<close> releases the cursor and is idempotent.\<close>

definition dsClose :: "download_stream \<Rightarrow> world \<Rightarrow> error option \<times> download_stream \<times> world" where
  "dsClose ds w =
     (let w0 = emit (Invoke DsClose) w in
      case (if ds_closed ds then (None, ds, w0)
            else (case ds_cursor ds of
                    None \<Rightarrow> (None, ds\<lparr>ds_closed := True\<rparr>, w0)
                  | Some _ \<Rightarrow>
                      (case ext_call CursorClose w0 of
                         (Some k, w1) \<Rightarrow> (Some (StoreError k), ds\<lparr>ds_closed := True\<rparr>, w1)
                       | (None, w1) \<Rightarrow> (None, ds\<lparr>ds_closed := True\<rparr>, w1)))) of
        (err, ds', w') \<Rightarrow> (err, ds', emit (Return DsClose err) w'))"

definition downloadToStream ::
  "bucket \<Rightarrow> download_stream \<Rightarrow> world \<Rightarrow> (nat \<times> error option) \<times> download_stream \<times> world" where
  "downloadToStream b ds w =
     (case dsSetReadDeadline ds (readDeadline b) w of
        (Some err, ds1, w1) \<Rightarrow>
          (case dsClose ds1 w1 of (_, ds2, w2) \<Rightarrow> ((0, Some err), ds2, w2))
      | (None, ds1, w1) \<Rightarrow>
          (case dsCopy ds1 w1 of
             (Inl err, ds2, w2) \<Rightarrow>
               (case dsClose ds2 w2 of (_, ds3, w3) \<Rightarrow> ((0, Some err), ds3, w3))
           | (Inr copied, ds2, w2) \<Rightarrow>
               (case dsClose ds2 w2 of (err, ds3, w3) \<Rightarrow> ((copied, err), ds3, w3))))"

subsection \<open>Reading the trace\<close>

text \<open>The events that a run from \<open>w\<close> to \<open>w'\<close> has added, and the calls to the store.\<close>

definition new_events :: "world \<Rightarrow> world \<Rightarrow> event list" where
  "new_events w w' = drop (length (trace w)) (trace w')"

fun is_call :: "event \<Rightarrow> bool" where
  "is_call (Call c op) = True"
| "is_call ev = False"

text \<open>What identifies an upload stream: everything but its buffer and counters.\<close>

definition same_stream :: "upload_stream \<Rightarrow> upload_stream \<Rightarrow> bool" where
  "same_stream us us' =
     (us_fileID us' = us_fileID us \<and> us_filename us' = us_filename us \<and>
      us_upload us' = us_upload us \<and> us_chunksColl us' = us_chunksColl us \<and>
      us_filesColl us' = us_filesColl us \<and> us_state us' = us_state us)"

text \<open>
  The events that the loop of \<open>UploadFromStreamWithID\<close> can add for a stream with
  chunks collection \<open>c\<close> and file id \<open>i\<close>, by the way the loop is left: iterations
  that read data without an error and write it, and then either a read that ends the
  source (with a last write if it came with data), a read that fails and the abort
  that follows, or a write that fails.
\<close>

inductive loop_events :: "collection \<Rightarrow> nat \<Rightarrow> loop_exit \<Rightarrow> event list \<Rightarrow> bool"
  for c :: collection and i :: nat where
  ends: "e0 = None \<or> e0 = Some EOF \<Longrightarrow> loop_events c i Broke [SrcRead [] e0]"
| ends_with_data: "p \<noteq> [] \<Longrightarrow> list_all is_call cs \<Longrightarrow>
     loop_events c i Broke
       (SrcRead p (Some EOF) # Invoke (UsWrite p) # cs @ [Return (UsWrite p) None])"
| read_fails: "e \<noteq> EOF \<Longrightarrow>
     loop_events c i (Returned e)
       [SrcRead p (Some e), Invoke UsAbort, Call c (OpDeleteMany (FFilesId i)), Return UsAbort r]"
| write_fails: "p \<noteq> [] \<Longrightarrow> e0 = None \<or> e0 = Some EOF \<Longrightarrow> list_all is_call cs \<Longrightarrow>
     loop_events c i (Returned err)
       (SrcRead p e0 # Invoke (UsWrite p) # cs @ [Return (UsWrite p) (Some err)])"
| continues: "p \<noteq> [] \<Longrightarrow> list_all is_call cs \<Longrightarrow> loop_events c i ex evs \<Longrightarrow>
     loop_events c i ex
       (SrcRead p None # Invoke (UsWrite p) # cs @ Return (UsWrite p) None # evs)"

subsection \<open>Example buckets and stores\<close>

text \<open>A bucket with three uploads of the name \<open>a\<close> and one of the name \<open>b\<close>.\<close>

definition example_coll :: "coll_kind \<Rightarrow> collection" where
  "example_coll k = \<lparr>coll_bucket = ''fs'', coll_kind = k, coll_rp = Secondary\<rparr>"

definition example_bucket :: bucket where
  "example_bucket =
     \<lparr>chunksColl = example_coll ChunksColl, filesColl = example_coll FilesColl,
      name = ''fs'', chunkSize = 4, rp = Secondary, firstWriteDone = False,
      readDeadline = 0, writeDeadline = 0\<rparr>"

definition example_file :: "nat \<Rightarrow> int \<Rightarrow> int \<Rightarrow> string \<Rightarrow> file_doc" where
  "example_file i len date fname =
     \<lparr>fd_id = i, fd_length = len, fd_chunkSize = Some 4, fd_uploadDate = date,
      fd_filename = fname, fd_metadata = None\<rparr>"

definition example_world :: world where
  "example_world =
     \<lparr>files = [example_file 1 0 20 ''a'', example_file 2 0 10 ''a'',
               example_file 3 0 15 ''b'', example_file 4 0 30 ''a''],
      chunks = [], filesIndexes = [], chunksIndexes = [], clock = 40, trace = [],
      faults = (\<lambda>k. None)\<rparr>"

text \<open>A files collection whose only document has content but no \<open>chunkSize\<close> field.\<close>

definition example_world_nochunksize :: world where
  "example_world_nochunksize = example_world\<lparr>files :=
     [\<lparr>fd_id = 7, fd_length = 5, fd_chunkSize = None, fd_uploadDate = 3,
       fd_filename = ''c'', fd_metadata = None\<rparr>]\<rparr>"

text \<open>An oracle under which the second call fails.\<close>

definition second_call_fails :: "nat \<Rightarrow> nat option" where
  "second_call_fails k = (if k = 1 then Some 5 else None)"

text \<open>
  A new bucket on an empty store, and a files collection that already has an index on
  the keys of the files model, made under another name with a double and a 64 bit
  integer as the directions.
\<close>

definition empty_world :: world where
  "empty_world = example_world\<lparr>files := []\<rparr>"

definition shell_index :: index_doc where
  "shell_index =
     \<lparr>ix_name = ''by_name'',
      ix_key = Some [(''filename'', BDouble 0x3FF0000000000000), (''uploadDate'', BInt64 1)]\<rparr>"

definition indexed_world :: world where
  "indexed_world = empty_world\<lparr>filesIndexes := [shell_index]\<rparr>"

definition no_upload_options :: upload_options where
  "no_upload_options = \<lparr>uo_chunkSizeBytes = None, uo_metadata = None\<rparr>"

text \<open>
  A bucket that has done its first write, an oracle under which the call at position
  \<open>n\<close> of the trace fails, and the stream that the bucket opens for file 11.
\<close>

definition written_bucket :: bucket where
  "written_bucket = example_bucket\<lparr>firstWriteDone := True\<rparr>"

definition fails_at :: "nat \<Rightarrow> nat \<Rightarrow> nat \<Rightarrow> nat option" where
  "fails_at n c k = (if k = n then Some c else None)"

definition example_stream :: upload_stream where
  "example_stream =
     newUploadStream \<lparr>up_chunkSize = 4, up_metadata = None\<rparr> 11 ''f''
       (example_coll ChunksColl) (example_coll FilesColl)"

text \<open>
  A bucket whose chunk size is 16 MiB. The upload stream of the repository collects
  16 MiB in its buffer before a write persists chunks; with this chunk size that is
  also the moment at which the stream of the specification persists its first chunk,
  so a write of 16 MiB issues the insert of one chunk of that size in either.
\<close>

definition large_bucket :: bucket where
  "large_bucket = written_bucket\<lparr>chunkSize := 16 * 1024 * 1024\<rparr>"

definition large_stream :: upload_stream where
  "large_stream =
     newUploadStream \<lparr>up_chunkSize = 16 * 1024 * 1024, up_metadata = None\<rparr> 11 ''f''
       (example_coll ChunksColl) (example_coll FilesColl)"

section \<open>Properties\<close>

subsection \<open>Download by name and revision\<close>

lemma sint_not_32: "sint (not (r :: 32 word)) = - sint r - 1"
proof -
  have lo: "- (2 ^ 31) \<le> sint r" and hi: "sint r < 2 ^ 31"
    using sint_ge [of r] sint_lt [of r] by simp_all
  have "sint (not r) = signed_take_bit 32 (not (sint r))"
    using signed_not_eq [of r, where ?'a = int] by simp
  also have "\<dots> = not (sint r)"
    by (rule signed_take_bit_int_eq_self) (use lo hi in \<open>simp_all add: not_int_def\<close>)
  finally show ?thesis by (simp add: not_int_def)
qed

lemma sint_scast_32_64: "sint (scast (r :: 32 word) :: 64 word) = sint r"
  by (simp add: sint_up_scast is_up)

lemma nameFindOptions_sort:
  "fo_sort (nameFindOptions (Some r)) =
     Some [(''uploadDate'', BInt32 (if 0 \<le> sint r then 1 else - 1))]"
  by (simp add: nameFindOptions_def Let_def)

lemma nameFindOptions_skip:
  "\<exists>s. fo_skip (nameFindOptions (Some r)) = Some s \<and>
       sint s = (if 0 \<le> sint r then sint r else - sint r - 1)"
  by (simp add: nameFindOptions_def Let_def sint_scast_32_64 sint_not_32
      flip: not_eq_complement)

lemma find_files_by_name:
  "find_files (FFilename fn) (Some (nameFindOptions (Some r))) fs =
     (if 0 \<le> sint r
      then drop (nat (sint r)) (sort_key fd_uploadDate (filter (\<lambda>d. fd_filename d = fn) fs))
      else drop (nat (- sint r - 1))
             (rev (sort_key fd_uploadDate (filter (\<lambda>d. fd_filename d = fn) fs))))"
proof -
  have m: "matches_file (FFilename fn) = (\<lambda>d. fd_filename d = fn)"
    by (rule ext) simp
  show ?thesis
    by (simp add: find_files_def nameFindOptions_def Let_def skip_docs_def sort_files_def m
        sint_scast_32_64 sint_not_32 flip: not_eq_complement)
qed

lemma findFile_Inr:
  assumes "findFile b flt opts w = (Inr d, w')"
  shows "find_files flt opts (files w) \<noteq> [] \<and> d = hd (find_files flt opts (files w))"
  using assms
  by (auto simp: findFile_def FindFiles_def ext_call_def emit_def
      split: option.splits list.splits)

lemma findFile_trace:
  "\<exists>rest. trace (snd (findFile b flt opts w)) =
     trace w @ Call (filesColl b) (OpFind flt (case opts of None \<Rightarrow> no_find_options | Some fo \<Rightarrow> fo)) # rest"
  by (auto simp: findFile_def FindFiles_def ext_call_def emit_def
      split: option.splits list.splits)

lemma findChunks_trace: "\<exists>rest. trace (snd (findChunks b i w)) = trace w @ rest"
  by (auto simp: findChunks_def FindChunks_def ext_call_def emit_def split: option.splits)

lemma openDownloadStream_Inr:
  assumes "openDownloadStream b flt opts w = (Inr ds, w')"
  shows "find_files flt opts (files w) \<noteq> [] \<and>
         ds_file ds = decode_file (hd (find_files flt opts (files w)))"
proof -
  from assms obtain d w1 where f: "findFile b flt opts w = (Inr d, w1)"
    by (auto simp: openDownloadStream_def split: prod.splits sum.splits)
  from assms f have "ds_file ds = decode_file d"
    by (auto simp: openDownloadStream_def Let_def newDownloadStream_def
        split: prod.splits sum.splits option.splits if_splits)
  with findFile_Inr [OF f] show ?thesis by simp
qed

lemma openDownloadStream_trace:
  "\<exists>rest. trace (snd (openDownloadStream b flt opts w)) =
     trace w @ Call (filesColl b) (OpFind flt (case opts of None \<Rightarrow> no_find_options | Some fo \<Rightarrow> fo)) # rest"
proof -
  obtain r w1 where f: "findFile b flt opts w = (r, w1)" by (cases "findFile b flt opts w")
  from findFile_trace [of b flt opts w] f obtain rest where
    t: "trace w1 = trace w @ Call (filesColl b) (OpFind flt (case opts of None \<Rightarrow> no_find_options | Some fo \<Rightarrow> fo)) # rest"
    by auto
  show ?thesis
  proof (cases r)
    case (Inl e)
    with f t show ?thesis by (simp add: openDownloadStream_def)
  next
    case (Inr d)
    obtain r3 w3 where c: "findChunks b (fi_id (decode_file d)) (emit CursorDecode w1) = (r3, w3)"
      by (cases "findChunks b (fi_id (decode_file d)) (emit CursorDecode w1)")
    from findChunks_trace [of b "fi_id (decode_file d)" "emit CursorDecode w1"] c
    obtain rest3 where t3: "trace w3 = trace w1 @ CursorDecode # rest3"
      by (auto simp: emit_def)
    from Inr f t c t3 show ?thesis
      by (auto simp: openDownloadStream_def ext_call_def emit_def Let_def
          split: option.splits sum.splits)
  qed
qed

lemma hd_sorted_least:
  assumes "sorted (map f xs)" "x \<in> set xs"
  shows "f (hd xs) \<le> f x"
  using assms by (cases xs) auto

lemma last_sorted_greatest:
  assumes "sorted (map f xs)" "x \<in> set xs"
  shows "f x \<le> f (last xs)"
  using assms by (induction xs) (auto split: if_splits)

lemma selected_by_revision:
  assumes "OpenDownloadStreamByName b fn (Some r) w = (Inr ds, w')"
  defines "asc \<equiv> sort_key fd_uploadDate (filter (\<lambda>d. fd_filename d = fn) (files w))"
  defines "k \<equiv> nat (if 0 \<le> sint r then sint r else - sint r - 1)"
  shows "k < length asc \<and> ds_file ds = decode_file ((if 0 \<le> sint r then asc else rev asc) ! k)"
proof -
  let ?res = "find_files (FFilename fn) (Some (nameFindOptions (Some r))) (files w)"
  from assms(1) have ne: "?res \<noteq> []" and f: "ds_file ds = decode_file (hd ?res)"
    using openDownloadStream_Inr [of b "FFilename fn" "Some (nameFindOptions (Some r))" w ds w']
    by (simp_all add: OpenDownloadStreamByName_def)
  have res: "?res = drop k (if 0 \<le> sint r then asc else rev asc)"
    by (simp add: find_files_by_name asc_def k_def)
  with ne have k: "k < length asc" by (auto split: if_splits)
  then have "hd ?res = (if 0 \<le> sint r then asc else rev asc) ! k"
    unfolding res by (simp add: hd_drop_conv_nth)
  with k f show ?thesis by simp
qed

lemma revision_0_first:
  assumes "OpenDownloadStreamByName b fn (Some 0) w = (Inr ds, w')"
  shows "fi_name (ds_file ds) = fn \<and>
         (\<forall>d \<in> set (files w). fd_filename d = fn \<longrightarrow> fi_uploadDate (ds_file ds) \<le> fd_uploadDate d)"
proof -
  let ?asc = "sort_key fd_uploadDate (filter (\<lambda>d. fd_filename d = fn) (files w))"
  from selected_by_revision [OF assms]
  have len: "0 < length ?asc" and f0: "ds_file ds = decode_file (?asc ! 0)"
    by simp_all
  from len have ne: "?asc \<noteq> []" unfolding length_greater_0_conv .
  from f0 have f: "ds_file ds = decode_file (hd ?asc)"
    by (simp only: hd_conv_nth [OF ne])
  from ne have "hd ?asc \<in> set ?asc" by (rule hd_in_set)
  then have n: "fd_filename (hd ?asc) = fn" by simp
  have "fd_uploadDate (hd ?asc) \<le> fd_uploadDate d" if "d \<in> set (files w)" "fd_filename d = fn" for d
  proof (rule hd_sorted_least)
    show "sorted (map fd_uploadDate ?asc)" by (rule sorted_sort_key)
    show "d \<in> set ?asc" using that by simp
  qed
  with n f show ?thesis by (simp add: decode_file_def)
qed

lemma revision_m1_last:
  assumes "OpenDownloadStreamByName b fn (Some (- 1)) w = (Inr ds, w')"
  shows "fi_name (ds_file ds) = fn \<and>
         (\<forall>d \<in> set (files w). fd_filename d = fn \<longrightarrow> fd_uploadDate d \<le> fi_uploadDate (ds_file ds))"
proof -
  let ?asc = "sort_key fd_uploadDate (filter (\<lambda>d. fd_filename d = fn) (files w))"
  from selected_by_revision [OF assms]
  have len: "0 < length ?asc" and f0: "ds_file ds = decode_file (rev ?asc ! 0)"
    by simp_all
  from len have ne: "?asc \<noteq> []" unfolding length_greater_0_conv .
  have "rev ?asc ! 0 = last ?asc"
    using len by (simp only: last_conv_nth [OF ne] rev_nth) simp
  with f0 have f: "ds_file ds = decode_file (last ?asc)" by (simp only:)
  from ne have "last ?asc \<in> set ?asc" by (rule last_in_set)
  then have n: "fd_filename (last ?asc) = fn" by simp
  have "fd_uploadDate d \<le> fd_uploadDate (last ?asc)" if "d \<in> set (files w)" "fd_filename d = fn" for d
  proof (rule last_sorted_greatest)
    show "sorted (map fd_uploadDate ?asc)" by (rule sorted_sort_key)
    show "d \<in> set ?asc" using that by simp
  qed
  with n f show ?thesis by (simp add: decode_file_def)
qed


text \<open>
  Claim C1. For every revision \<open>r\<close>, \<open>OpenDownloadStreamByName\<close> looks the file up
  sorted ascending by \<open>uploadDate\<close> with skip \<open>r\<close> when \<open>r\<close> is not negative, and sorted
  descending with skip \<open>(-r) - 1\<close> when it is negative; this holds in the arithmetic of
  \<open>int32\<close>, the least revision included. The lookup is the first call made, and a stream
  that is returned is on the file at that position among the files of the name, so
  revision 0 gives an upload no later than any other of the name and revision -1 one
  no earlier than any other.
\<close>

theorem OpenDownloadStreamByName_revision:
  "fo_sort (nameFindOptions (Some r)) =
     Some [(''uploadDate'', BInt32 (if 0 \<le> sint r then 1 else - 1))]
   \<and> (\<exists>s. fo_skip (nameFindOptions (Some r)) = Some s \<and>
          sint s = (if 0 \<le> sint r then sint r else - sint r - 1))
   \<and> (\<exists>rest. trace (snd (OpenDownloadStreamByName b fn (Some r) w)) =
          trace w @ Call (filesColl b) (OpFind (FFilename fn) (nameFindOptions (Some r))) # rest)
   \<and> (OpenDownloadStreamByName b fn (Some r) w = (Inr ds, w') \<longrightarrow>
        (let asc = sort_key fd_uploadDate (filter (\<lambda>d. fd_filename d = fn) (files w));
             k = nat (if 0 \<le> sint r then sint r else - sint r - 1)
         in k < length asc \<and>
            ds_file ds = decode_file ((if 0 \<le> sint r then asc else rev asc) ! k)))
   \<and> (OpenDownloadStreamByName b fn (Some 0) w = (Inr ds0, w0) \<longrightarrow>
        fi_name (ds_file ds0) = fn \<and>
        (\<forall>d \<in> set (files w). fd_filename d = fn \<longrightarrow>
           fi_uploadDate (ds_file ds0) \<le> fd_uploadDate d))
   \<and> (OpenDownloadStreamByName b fn (Some (- 1)) w = (Inr ds1, w1) \<longrightarrow>
        fi_name (ds_file ds1) = fn \<and>
        (\<forall>d \<in> set (files w). fd_filename d = fn \<longrightarrow>
           fd_uploadDate d \<le> fi_uploadDate (ds_file ds1)))"
proof (intro conjI impI)
  show "fo_sort (nameFindOptions (Some r)) =
     Some [(''uploadDate'', BInt32 (if 0 \<le> sint r then 1 else - 1))]"
    by (rule nameFindOptions_sort)
  show "\<exists>s. fo_skip (nameFindOptions (Some r)) = Some s \<and>
          sint s = (if 0 \<le> sint r then sint r else - sint r - 1)"
    by (rule nameFindOptions_skip)
  show "\<exists>rest. trace (snd (OpenDownloadStreamByName b fn (Some r) w)) =
          trace w @ Call (filesColl b) (OpFind (FFilename fn) (nameFindOptions (Some r))) # rest"
    using openDownloadStream_trace [of b "FFilename fn" "Some (nameFindOptions (Some r))" w]
    by (simp add: OpenDownloadStreamByName_def)
next
  assume a: "OpenDownloadStreamByName b fn (Some r) w = (Inr ds, w')"
  show "let asc = sort_key fd_uploadDate (filter (\<lambda>d. fd_filename d = fn) (files w));
            k = nat (if 0 \<le> sint r then sint r else - sint r - 1)
        in k < length asc \<and>
           ds_file ds = decode_file ((if 0 \<le> sint r then asc else rev asc) ! k)"
    using selected_by_revision [OF a] by (simp add: Let_def)
next
  assume a: "OpenDownloadStreamByName b fn (Some 0) w = (Inr ds0, w0)"
  show "fi_name (ds_file ds0) = fn" using revision_0_first [OF a] by simp
  show "\<forall>d \<in> set (files w). fd_filename d = fn \<longrightarrow>
           fi_uploadDate (ds_file ds0) \<le> fd_uploadDate d"
    using revision_0_first [OF a] by simp
next
  assume a: "OpenDownloadStreamByName b fn (Some (- 1)) w = (Inr ds1, w1)"
  show "fi_name (ds_file ds1) = fn" using revision_m1_last [OF a] by simp
  show "\<forall>d \<in> set (files w). fd_filename d = fn \<longrightarrow>
           fd_uploadDate d \<le> fi_uploadDate (ds_file ds1)"
    using revision_m1_last [OF a] by simp
qed

theorem OpenDownloadStreamByName_revision_witness:
  "(\<exists>ds w'. OpenDownloadStreamByName example_bucket ''a'' (Some 1) example_world = (Inr ds, w') \<and>
       fi_id (ds_file ds) = 1)
   \<and> (\<exists>ds w'. OpenDownloadStreamByName example_bucket ''a'' (Some 0) example_world = (Inr ds, w') \<and>
       fi_name (ds_file ds) = ''a'' \<and> fi_uploadDate (ds_file ds) \<le> 20)
   \<and> (\<exists>ds w'. OpenDownloadStreamByName example_bucket ''a'' (Some (- 1)) example_world = (Inr ds, w') \<and>
       fi_name (ds_file ds) = ''a'' \<and> 20 \<le> fi_uploadDate (ds_file ds))"
proof -
  note defs = OpenDownloadStreamByName_def openDownloadStream_def findFile_def FindFiles_def
    ext_call_def emit_def find_files_def nameFindOptions_def skip_docs_def sort_files_def
    example_world_def example_bucket_def example_file_def example_coll_def decode_file_def
    newDownloadStream_def Let_def
  have "\<exists>ds w'. OpenDownloadStreamByName example_bucket ''a'' (Some 1) example_world = (Inr ds, w')"
    by (simp add: defs)
  then obtain ds w' where
    e: "OpenDownloadStreamByName example_bucket ''a'' (Some 1) example_world = (Inr ds, w')"
    by blast
  have "\<exists>ds w'. OpenDownloadStreamByName example_bucket ''a'' (Some 0) example_world = (Inr ds, w')"
    by (simp add: defs)
  then obtain ds0 w0 where
    e0: "OpenDownloadStreamByName example_bucket ''a'' (Some 0) example_world = (Inr ds0, w0)"
    by blast
  have "\<exists>ds w'. OpenDownloadStreamByName example_bucket ''a'' (Some (- 1)) example_world = (Inr ds, w')"
    by (simp add: defs)
  then obtain ds1 w1 where
    e1: "OpenDownloadStreamByName example_bucket ''a'' (Some (- 1)) example_world = (Inr ds1, w1)"
    by blast
  note t = OpenDownloadStreamByName_revision [where r = 1 and b = example_bucket
      and fn = "''a''" and w = example_world and ds = ds and w' = w' and ?ds0.0 = ds0
      and ?w0.0 = w0 and ?ds1.0 = ds1 and ?w1.0 = w1]
  have m: "example_file 1 0 20 ''a'' \<in> set (files example_world)"
    by (simp add: example_world_def)
  from t e have "fi_id (ds_file ds) = 1"
    by (simp add: Let_def example_world_def example_file_def decode_file_def)
  moreover from t e0 m have "fi_name (ds_file ds0) = ''a'' \<and> fi_uploadDate (ds_file ds0) \<le> 20"
    by (auto simp: example_file_def)
  moreover from t e1 m have "fi_name (ds_file ds1) = ''a'' \<and> 20 \<le> fi_uploadDate (ds_file ds1)"
    by (auto simp: example_file_def)
  ultimately show ?thesis using e e0 e1 by blast
qed

text \<open>
  Claim C9. Without a revision option \<open>OpenDownloadStreamByName\<close> behaves as with
  revision -1: the lookup sorts descending by \<open>uploadDate\<close> with skip 0, and a stream
  that is returned is on an upload of the name that is no earlier than any other.
\<close>

theorem OpenDownloadStreamByName_default_revision:
  "nameFindOptions None = \<lparr>fo_skip = Some 0, fo_sort = Some [(''uploadDate'', BInt32 (- 1))]\<rparr>
   \<and> OpenDownloadStreamByName b fn None w = OpenDownloadStreamByName b fn (Some (- 1)) w
   \<and> (\<exists>rest. trace (snd (OpenDownloadStreamByName b fn None w)) =
          trace w @ Call (filesColl b) (OpFind (FFilename fn)
            \<lparr>fo_skip = Some 0, fo_sort = Some [(''uploadDate'', BInt32 (- 1))]\<rparr>) # rest)
   \<and> (OpenDownloadStreamByName b fn None w = (Inr ds, w') \<longrightarrow>
        fi_name (ds_file ds) = fn \<and>
        (\<forall>d \<in> set (files w). fd_filename d = fn \<longrightarrow>
           fd_uploadDate d \<le> fi_uploadDate (ds_file ds)))"
proof -
  have o: "nameFindOptions None = \<lparr>fo_skip = Some 0, fo_sort = Some [(''uploadDate'', BInt32 (- 1))]\<rparr>"
    by (simp add: nameFindOptions_def Let_def)
  have o': "nameFindOptions (Some (- 1)) = nameFindOptions None"
    by (simp add: nameFindOptions_def Let_def)
  have eq: "OpenDownloadStreamByName b fn None w = OpenDownloadStreamByName b fn (Some (- 1)) w"
    by (simp add: OpenDownloadStreamByName_def o')
  have tr: "\<exists>rest. trace (snd (OpenDownloadStreamByName b fn None w)) =
          trace w @ Call (filesColl b) (OpFind (FFilename fn)
            \<lparr>fo_skip = Some 0, fo_sort = Some [(''uploadDate'', BInt32 (- 1))]\<rparr>) # rest"
    using openDownloadStream_trace [of b "FFilename fn" "Some (nameFindOptions None)" w]
    by (simp add: OpenDownloadStreamByName_def o)
  have sel: "fi_name (ds_file ds) = fn \<and>
        (\<forall>d \<in> set (files w). fd_filename d = fn \<longrightarrow>
           fd_uploadDate d \<le> fi_uploadDate (ds_file ds))"
    if "OpenDownloadStreamByName b fn None w = (Inr ds, w')"
    using that revision_m1_last [of b fn w ds w'] by (simp add: eq)
  from o eq tr sel show ?thesis by blast
qed

theorem OpenDownloadStreamByName_default_revision_witness:
  "\<exists>ds w'. OpenDownloadStreamByName example_bucket ''a'' None example_world = (Inr ds, w') \<and>
      fi_name (ds_file ds) = ''a'' \<and> 20 \<le> fi_uploadDate (ds_file ds)"
proof -
  have "\<exists>ds w'. OpenDownloadStreamByName example_bucket ''a'' None example_world = (Inr ds, w')"
    by (simp add: OpenDownloadStreamByName_def openDownloadStream_def findFile_def FindFiles_def
    ext_call_def emit_def find_files_def nameFindOptions_def skip_docs_def sort_files_def
    example_world_def example_bucket_def example_file_def example_coll_def decode_file_def
    newDownloadStream_def Let_def)
  then obtain ds w' where
    e: "OpenDownloadStreamByName example_bucket ''a'' None example_world = (Inr ds, w')"
    by blast
  have m: "example_file 1 0 20 ''a'' \<in> set (files example_world)"
    by (simp add: example_world_def)
  from OpenDownloadStreamByName_default_revision [of example_bucket "''a''" example_world ds w'] e m
  have "fi_name (ds_file ds) = ''a'' \<and> 20 \<le> fi_uploadDate (ds_file ds)"
    by (auto simp: example_file_def)
  with e show ?thesis by blast
qed

subsection \<open>Opening a download stream\<close>

text \<open>
  Claim C7. When \<open>openDownloadStream\<close> has located a metadata document and decoded it:
  if the length of the document is 0, the stream returned has no chunk cursor and
  nothing is asked of the chunks collection (the trace ends with the decoding); if the
  length is not 0, in particular greater than 0, and the document has no \<open>chunkSize\<close>
  field, the result is \<open>ErrMissingChunkSize\<close>, no stream, and again no chunk is
  queried.
\<close>

theorem openDownloadStream_located:
  assumes located: "findFile b flt opts w = (Inr d, w1)"
    and decoded: "faults w1 (length (trace w1)) = None"
  shows "(fd_length d = 0 \<longrightarrow>
            openDownloadStream b flt opts w =
              (Inr (newDownloadStream None (fi_chunkSize (decode_file d)) (decode_file d)),
               emit CursorDecode w1)
            \<and> ds_cursor (newDownloadStream None (fi_chunkSize (decode_file d)) (decode_file d)) = None)
       \<and> (fd_length d \<noteq> 0 \<and> fd_chunkSize d = None \<longrightarrow>
            openDownloadStream b flt opts w = (Inl ErrMissingChunkSize, emit CursorDecode w1))
       \<and> (fd_length d = 0 \<or> fd_chunkSize d = None \<longrightarrow>
            trace (snd (openDownloadStream b flt opts w)) =
              trace w @ [Call (filesColl b)
                           (OpFind flt (case opts of None \<Rightarrow> no_find_options | Some fo \<Rightarrow> fo)),
                         CursorDecode])"
proof -
  from located have t1: "trace w1 = trace w @ [Call (filesColl b)
      (OpFind flt (case opts of None \<Rightarrow> no_find_options | Some fo \<Rightarrow> fo))]"
    by (auto simp: findFile_def FindFiles_def ext_call_def emit_def
        split: option.splits list.splits)
  have l: "fi_length (decode_file d) = fd_length d"
    by (simp add: decode_file_def)
  from located decoded l t1 show ?thesis
    by (simp add: openDownloadStream_def ext_call_def Let_def newDownloadStream_def emit_def)
qed

theorem openDownloadStream_located_witness:
  "(\<exists>ds w'. openDownloadStream example_bucket (FId 3) None example_world = (Inr ds, w') \<and>
        ds_cursor ds = None \<and>
        trace w' = [Call (filesColl example_bucket) (OpFind (FId 3) no_find_options), CursorDecode])
   \<and> (\<exists>w'. openDownloadStream example_bucket (FId 7) None example_world_nochunksize =
          (Inl ErrMissingChunkSize, w') \<and>
        trace w' = [Call (filesColl example_bucket) (OpFind (FId 7) no_find_options), CursorDecode])"
proof -
  let ?w1 = "emit (Call (filesColl example_bucket) (OpFind (FId 3) no_find_options)) example_world"
  let ?d = "example_file 3 0 15 ''b''"
  have f: "findFile example_bucket (FId 3) None example_world = (Inr ?d, ?w1)"
    by (simp add: findFile_def FindFiles_def ext_call_def find_files_def example_world_def
        example_file_def emit_def)
  have g: "faults ?w1 (length (trace ?w1)) = None"
    by (simp add: emit_def example_world_def)
  let ?v1 = "emit (Call (filesColl example_bucket) (OpFind (FId 7) no_find_options))
      example_world_nochunksize"
  let ?e = "\<lparr>fd_id = 7, fd_length = 5, fd_chunkSize = None, fd_uploadDate = 3,
       fd_filename = ''c'', fd_metadata = None\<rparr>"
  have f': "findFile example_bucket (FId 7) None example_world_nochunksize = (Inr ?e, ?v1)"
    by (simp add: findFile_def FindFiles_def ext_call_def find_files_def example_world_def
        example_world_nochunksize_def emit_def)
  have g': "faults ?v1 (length (trace ?v1)) = None"
    by (simp add: emit_def example_world_def example_world_nochunksize_def)
  have len: "fd_length ?d = 0" by (simp add: example_file_def)
  have cur: "ds_cursor (newDownloadStream None x y) = None" for x y
    by (simp add: newDownloadStream_def)
  from openDownloadStream_located [OF f g] len
  have c1: "openDownloadStream example_bucket (FId 3) None example_world =
      (Inr (newDownloadStream None (fi_chunkSize (decode_file ?d)) (decode_file ?d)),
       emit CursorDecode ?w1)"
    by blast
  have tr: "trace (emit CursorDecode ?w1) =
      [Call (filesColl example_bucket) (OpFind (FId 3) no_find_options), CursorDecode]"
    by (simp add: emit_def example_world_def)
  have a: "\<exists>ds w'. openDownloadStream example_bucket (FId 3) None example_world = (Inr ds, w') \<and>
        ds_cursor ds = None \<and>
        trace w' = [Call (filesColl example_bucket) (OpFind (FId 3) no_find_options), CursorDecode]"
    by (rule exI, rule exI, intro conjI, rule c1, rule cur, rule tr)
  have len': "fd_length ?e \<noteq> 0 \<and> fd_chunkSize ?e = None" by simp
  from openDownloadStream_located [OF f' g'] len'
  have c2: "openDownloadStream example_bucket (FId 7) None example_world_nochunksize =
      (Inl ErrMissingChunkSize, emit CursorDecode ?v1)"
    by blast
  have tr': "trace (emit CursorDecode ?v1) =
      [Call (filesColl example_bucket) (OpFind (FId 7) no_find_options), CursorDecode]"
    by (simp add: emit_def example_world_def example_world_nochunksize_def)
  have b: "\<exists>w'. openDownloadStream example_bucket (FId 7) None example_world_nochunksize =
          (Inl ErrMissingChunkSize, w') \<and>
        trace w' = [Call (filesColl example_bucket) (OpFind (FId 7) no_find_options), CursorDecode]"
    by (rule exI, intro conjI, rule c2, rule tr')
  from a b show ?thesis by blast
qed

subsection \<open>Deleting a file\<close>

lemma remove_first_absent:
  "distinct (map f xs) \<Longrightarrow> i \<notin> f ` set (remove_first (\<lambda>d. f d = i) xs)"
  by (induction xs) auto

lemma DeleteContext_trace:
  "trace (snd (DeleteContext b fileID w)) =
     trace w @ [Call (filesColl b) (OpDeleteOne (FId fileID)),
                Call (chunksColl b) (OpDeleteMany (FFilesId fileID))]"
  by (simp add: DeleteContext_def DeleteOne_def deleteChunks_def DeleteMany_def ext_call_def
      emit_def Let_def split: option.splits)

lemma DeleteContext_not_found:
  assumes "faults w (length (trace w)) = None" and "fileID \<notin> fd_id ` set (files w)"
  shows "fst (DeleteContext b fileID w) = Some ErrFileNotFound"
    and "files (snd (DeleteContext b fileID w)) = files w"
    and "faults w (Suc (length (trace w))) = None \<Longrightarrow>
         chunks (snd (DeleteContext b fileID w)) = filter (\<lambda>c. cd_filesId c \<noteq> fileID) (chunks w)"
proof -
  have m: "matches_file (FId fileID) = (\<lambda>d. fd_id d = fileID)" by (rule ext) simp
  have c: "matches_chunk (FFilesId fileID) = (\<lambda>c. cd_filesId c = fileID)" by (rule ext) simp
  from assms(2) have ne: "\<not> list_ex (\<lambda>d. fd_id d = fileID) (files w)"
    by (auto simp: list_ex_iff)
  from assms(1) ne show "fst (DeleteContext b fileID w) = Some ErrFileNotFound"
    by (simp add: DeleteContext_def DeleteOne_def deleteChunks_def DeleteMany_def ext_call_def
        emit_def Let_def m split: option.splits)
  from assms(1) ne show "files (snd (DeleteContext b fileID w)) = files w"
    by (simp add: DeleteContext_def DeleteOne_def deleteChunks_def DeleteMany_def ext_call_def
        emit_def Let_def m split: option.splits)
  assume "faults w (Suc (length (trace w))) = None"
  with assms(1) ne show "chunks (snd (DeleteContext b fileID w)) =
      filter (\<lambda>c. cd_filesId c \<noteq> fileID) (chunks w)"
    by (simp add: DeleteContext_def DeleteOne_def deleteChunks_def DeleteMany_def ext_call_def
        emit_def Let_def m c split: option.splits)
qed

lemma DeleteContext_chunks_fail:
  assumes "faults w (length (trace w)) = None" and "fileID \<in> fd_id ` set (files w)"
    and "faults w (Suc (length (trace w))) = Some k"
  shows "fst (DeleteContext b fileID w) = Some (StoreError k)"
    and "files (snd (DeleteContext b fileID w)) = remove_first (\<lambda>d. fd_id d = fileID) (files w)"
    and "chunks (snd (DeleteContext b fileID w)) = chunks w"
proof -
  have m: "matches_file (FId fileID) = (\<lambda>d. fd_id d = fileID)" by (rule ext) simp
  from assms(2) have ex: "list_ex (\<lambda>d. fd_id d = fileID) (files w)"
    by (auto simp: list_ex_iff)
  from assms(1,3) ex show "fst (DeleteContext b fileID w) = Some (StoreError k)"
    by (simp add: DeleteContext_def DeleteOne_def deleteChunks_def DeleteMany_def ext_call_def
        emit_def Let_def m)
  from assms(1,3) ex show "files (snd (DeleteContext b fileID w)) =
      remove_first (\<lambda>d. fd_id d = fileID) (files w)"
    by (simp add: DeleteContext_def DeleteOne_def deleteChunks_def DeleteMany_def ext_call_def
        emit_def Let_def m)
  from assms(1,3) ex show "chunks (snd (DeleteContext b fileID w)) = chunks w"
    by (simp add: DeleteContext_def DeleteOne_def deleteChunks_def DeleteMany_def ext_call_def
        emit_def Let_def m)
qed

text \<open>
  Claim C2. \<open>Delete\<close> makes exactly two calls, the delete of the metadata document
  and then the delete of the chunks with that \<open>files_id\<close>. When the first matches no
  document the result is \<open>ErrFileNotFound\<close>, and the chunks of that id are gone if
  the second call succeeds. When the first deletes the document and the second fails,
  the error of the second is returned and the files collection is the one left by the
  first call: the document is not put back, and with unique ids no document of that
  id remains.
\<close>

theorem Delete_files_then_chunks:
  "trace (snd (Delete b fileID w)) =
     trace w @ [Call (filesColl b) (OpDeleteOne (FId fileID)),
                Call (chunksColl b) (OpDeleteMany (FFilesId fileID))]
   \<and> (faults w (length (trace w)) = None \<and> fileID \<notin> fd_id ` set (files w) \<longrightarrow>
        fst (Delete b fileID w) = Some ErrFileNotFound \<and>
        (faults w (Suc (length (trace w))) = None \<longrightarrow>
           chunks (snd (Delete b fileID w)) = filter (\<lambda>c. cd_filesId c \<noteq> fileID) (chunks w)))
   \<and> (faults w (length (trace w)) = None \<and> fileID \<in> fd_id ` set (files w) \<and>
      faults w (Suc (length (trace w))) = Some k \<longrightarrow>
        fst (Delete b fileID w) = Some (StoreError k) \<and>
        files (snd (Delete b fileID w)) = remove_first (\<lambda>d. fd_id d = fileID) (files w) \<and>
        (distinct (map fd_id (files w)) \<longrightarrow> fileID \<notin> fd_id ` set (files (snd (Delete b fileID w)))))"
proof (intro conjI impI)
  show "trace (snd (Delete b fileID w)) =
     trace w @ [Call (filesColl b) (OpDeleteOne (FId fileID)),
                Call (chunksColl b) (OpDeleteMany (FFilesId fileID))]"
    by (simp add: Delete_def DeleteContext_trace)
next
  assume a: "faults w (length (trace w)) = None \<and> fileID \<notin> fd_id ` set (files w)"
  then show "fst (Delete b fileID w) = Some ErrFileNotFound"
    by (simp add: Delete_def DeleteContext_not_found(1))
  assume "faults w (Suc (length (trace w))) = None"
  with a show "chunks (snd (Delete b fileID w)) =
      filter (\<lambda>c. cd_filesId c \<noteq> fileID) (chunks w)"
    by (simp add: Delete_def DeleteContext_not_found(3))
next
  assume a: "faults w (length (trace w)) = None \<and> fileID \<in> fd_id ` set (files w) \<and>
      faults w (Suc (length (trace w))) = Some k"
  then show "fst (Delete b fileID w) = Some (StoreError k)"
    by (simp add: Delete_def DeleteContext_chunks_fail(1))
  from a show f: "files (snd (Delete b fileID w)) =
      remove_first (\<lambda>d. fd_id d = fileID) (files w)"
    by (simp add: Delete_def DeleteContext_chunks_fail(2))
  assume "distinct (map fd_id (files w))"
  then show "fileID \<notin> fd_id ` set (files (snd (Delete b fileID w)))"
    unfolding f by (rule remove_first_absent)
qed

theorem Delete_files_then_chunks_witness:
  "fst (Delete example_bucket 9 example_world) = Some ErrFileNotFound
   \<and> chunks (snd (Delete example_bucket 9 example_world)) = []
   \<and> fst (Delete example_bucket 2 (example_world\<lparr>faults := second_call_fails\<rparr>)) =
        Some (StoreError 5)
   \<and> map fd_id (files (snd (Delete example_bucket 2 (example_world\<lparr>faults := second_call_fails\<rparr>)))) =
        [1, 3, 4]
   \<and> 2 \<notin> fd_id ` set (files (snd (Delete example_bucket 2 (example_world\<lparr>faults := second_call_fails\<rparr>))))"
proof -
  let ?v = "example_world\<lparr>faults := second_call_fails\<rparr>"
  have h1: "faults example_world (length (trace example_world)) = None"
    and h2: "9 \<notin> fd_id ` set (files example_world)"
    and h3: "faults example_world (Suc (length (trace example_world))) = None"
    by (simp_all add: example_world_def example_file_def)
  have g1: "faults ?v (length (trace ?v)) = None"
    and g2: "2 \<in> fd_id ` set (files ?v)"
    and g3: "faults ?v (Suc (length (trace ?v))) = Some 5"
    and g4: "distinct (map fd_id (files ?v))"
    by (simp_all add: example_world_def example_file_def second_call_fails_def)
  from Delete_files_then_chunks [of example_bucket 9 example_world] h1 h2 h3
  have a: "fst (Delete example_bucket 9 example_world) = Some ErrFileNotFound
     \<and> chunks (snd (Delete example_bucket 9 example_world)) = []"
    by (simp add: example_world_def)
  note t = Delete_files_then_chunks [of example_bucket 2 ?v 5]
  from t g1 g2 g3 have b1: "fst (Delete example_bucket 2 ?v) = Some (StoreError 5)"
    by blast
  from t g1 g2 g3 have b2: "files (snd (Delete example_bucket 2 ?v)) =
      remove_first (\<lambda>d. fd_id d = 2) (files ?v)"
    by blast
  from t g1 g2 g3 g4 have b3: "2 \<notin> fd_id ` set (files (snd (Delete example_bucket 2 ?v)))"
    by blast
  have c: "map fd_id (remove_first (\<lambda>d. fd_id d = 2) (files ?v)) = [1, 3, 4]"
    by (simp add: example_world_def example_file_def)
  from b2 c have b2': "map fd_id (files (snd (Delete example_bucket 2 ?v))) = [1, 3, 4]"
    by (simp only:)
  from a b1 b2' b3 show ?thesis by blast
qed

subsection \<open>Index provisioning\<close>

lemma elemsEqual_spec:
  "length actual = length expected \<Longrightarrow>
   elemsEqual expected actual = keys_numerically_equal expected actual"
proof (induction expected actual rule: elemsEqual.induct)
  case (1 actualElems)
  then show ?case by (simp add: keys_numerically_equal_def)
next
  case (2 expectedElem es)
  then show ?case by simp
next
  case (3 expectedKey expectedVal es actualKey actualVal as)
  then show ?case
    by (auto simp: keys_numerically_equal_def split: option.splits)
qed

lemma numericalIndexDocsEqual_spec:
  "numericalIndexDocsEqual expected actual =
     Inr (expected = actual \<or> keys_numerically_equal expected actual)"
proof (cases "length actual = length expected")
  case True
  then show ?thesis by (simp add: numericalIndexDocsEqual_def elemsEqual_spec)
next
  case False
  then have "\<not> keys_numerically_equal expected actual"
    by (auto simp: keys_numerically_equal_def dest: list_all2_lengthD)
  with False show ?thesis by (auto simp: numericalIndexDocsEqual_def)
qed

lemma indexListed_member:
  assumes "d \<in> set xs" and "ix_key d = Some k"
    and "keys = k \<or> keys_numerically_equal keys k"
  shows "indexListed keys xs \<noteq> Inr False"
  using assms
  by (induction xs) (auto simp: numericalIndexDocsEqual_spec split: option.splits)

lemma indexListed_snoc:
  "indexListed keys xs = Inr False \<Longrightarrow>
   indexListed keys (xs @ [\<lparr>ix_name = n, ix_key = Some keys\<rparr>]) = Inr True"
  by (induction xs) (auto simp: numericalIndexDocsEqual_spec split: option.splits if_splits)

text \<open>What one run of \<open>createNumericalIndexIfNotExists\<close> can do to the world.\<close>

lemma createNumericalIndexIfNotExists_cases:
  assumes "createNumericalIndexIfNotExists iv model w = (r, w')"
  shows "files w' = files w \<and> chunks w' = chunks w \<and> faults w' = faults w \<and>
         ((filesIndexes w' = filesIndexes w \<and> chunksIndexes w' = chunksIndexes w \<and>
           (\<forall>c m. Call c (OpCreateIndex m) \<notin> set (drop (length (trace w)) (trace w')) \<or> r \<noteq> None))
          \<or> (r = None \<and> indexListed (im_keys model) (indexes_of iv w) = Inr False \<and>
              (case coll_kind iv of
                 FilesColl \<Rightarrow> filesIndexes w' = filesIndexes w @ [index_of_model model] \<and>
                              chunksIndexes w' = chunksIndexes w
               | ChunksColl \<Rightarrow> chunksIndexes w' = chunksIndexes w @ [index_of_model model] \<and>
                              filesIndexes w' = filesIndexes w)))"
  using assms
  by (auto simp: createNumericalIndexIfNotExists_def ListIndexes_def CreateOne_def ext_call_def
      emit_def indexes_of_def index_of_model_def Let_def
      split: option.splits sum.splits if_splits coll_kind.splits prod.splits)


lemma createNumericalIndexIfNotExists_trace:
  "\<exists>rest. trace (snd (createNumericalIndexIfNotExists iv model w)) = trace w @ rest"
  by (auto simp: createNumericalIndexIfNotExists_def ListIndexes_def CreateOne_def ext_call_def
      emit_def Let_def split: option.splits sum.splits coll_kind.splits)

lemma createNumericalIndexIfNotExists_listed:
  assumes "d \<in> set (indexes_of iv w)" and "ix_key d = Some k"
    and "keys_numerically_equal (im_keys model) k"
  shows "filesIndexes (snd (createNumericalIndexIfNotExists iv model w)) = filesIndexes w
    \<and> chunksIndexes (snd (createNumericalIndexIfNotExists iv model w)) = chunksIndexes w
    \<and> (\<forall>c m. Call c (OpCreateIndex m) \<notin>
          set (drop (length (trace w)) (trace (snd (createNumericalIndexIfNotExists iv model w)))))"
proof -
  have i: "indexes_of iv (w\<lparr>trace := t\<rparr>) = indexes_of iv w" for t
    by (simp add: indexes_of_def split: coll_kind.splits)
  from assms have "indexListed (im_keys model) (indexes_of iv w) \<noteq> Inr False"
    by (intro indexListed_member [of d _ k]) simp_all
  then show ?thesis
    by (auto simp: createNumericalIndexIfNotExists_def ListIndexes_def ext_call_def i emit_def
        split: option.splits sum.splits)
qed

lemma createIndexes_nonempty:
  assumes "files w \<noteq> []"
  shows "createIndexes b w =
     (let e1 = CloneColl (filesColl b) Primary;
          e2 = Call ((filesColl b)\<lparr>coll_rp := Primary\<rparr>) (OpFindOne FAll [(''_id'', BInt32 1)])
      in case faults w (length (trace w)) of
           Some k \<Rightarrow> (Some (StoreError k), emit e1 w)
         | None \<Rightarrow>
             (case faults w (Suc (length (trace w))) of
                Some k \<Rightarrow> (Some (StoreError k), emit e2 (emit e1 w))
              | None \<Rightarrow> (None, emit e2 (emit e1 w))))"
proof -
  from assms obtain d ds where "files w = d # ds" by (cases "files w") auto
  then show ?thesis
    by (simp add: createIndexes_def FindOne_def ext_call_def emit_def Let_def
        split: option.splits)
qed

lemma createIndexes_trace:
  "(\<exists>rest. trace (snd (createIndexes b w)) = trace w @ CloneColl (filesColl b) Primary # rest)
   \<and> (faults w (length (trace w)) = None \<longrightarrow>
        (\<exists>rest. trace (snd (createIndexes b w)) =
           trace w @ [CloneColl (filesColl b) Primary,
                      Call ((filesColl b)\<lparr>coll_rp := Primary\<rparr>) (OpFindOne FAll [(''_id'', BInt32 1)])]
                   @ rest))"
proof -
  let ?e1 = "CloneColl (filesColl b) Primary"
  let ?e2 = "Call ((filesColl b)\<lparr>coll_rp := Primary\<rparr>) (OpFindOne FAll [(''_id'', BInt32 1)])"
  let ?w2 = "emit ?e2 (emit ?e1 w)"
  obtain r3 w3 where c3: "createNumericalIndexIfNotExists (filesColl b) filesModel ?w2 = (r3, w3)"
    by (cases "createNumericalIndexIfNotExists (filesColl b) filesModel ?w2")
  obtain r4 w4 where c4: "createNumericalIndexIfNotExists (chunksColl b) chunksModel w3 = (r4, w4)"
    by (cases "createNumericalIndexIfNotExists (chunksColl b) chunksModel w3")
  from createNumericalIndexIfNotExists_trace [of "filesColl b" filesModel ?w2] c3
  obtain rest3 where t3: "trace w3 = trace ?w2 @ rest3" by auto
  from createNumericalIndexIfNotExists_trace [of "chunksColl b" chunksModel w3] c4
  obtain rest4 where t4: "trace w4 = trace w3 @ rest4" by auto
  have t2: "trace ?w2 = trace w @ [?e1, ?e2]" by (simp add: emit_def)
  have "\<exists>rest. trace (snd (createIndexes b w)) = trace w @ [?e1, ?e2] @ rest"
    if "faults w (length (trace w)) = None"
    using that c3 c4 t3 t4 t2
    by (auto simp: createIndexes_def FindOne_def ext_call_def Let_def
        split: option.splits sum.splits list.splits)
  moreover have "\<exists>rest. trace (snd (createIndexes b w)) = trace w @ ?e1 # rest"
    if "faults w (length (trace w)) = Some k" for k
    using that by (simp add: createIndexes_def ext_call_def emit_def)
  ultimately show ?thesis by (cases "faults w (length (trace w))") auto
qed

text \<open>
  Claim C4. \<open>createIndexes\<close> begins by cloning the files collection handle with the
  read preference \<open>Primary\<close>, and the emptiness check is a \<open>FindOne\<close> on that clone,
  whatever the read preference of the bucket is. When the files collection holds a
  document, these are the only two events, no index is listed or created and the
  index lists stay as they are; when neither of the two fails the result is \<open>nil\<close>.
\<close>

theorem createIndexes_emptiness_check:
  "(\<exists>rest. trace (snd (createIndexes b w)) = trace w @ CloneColl (filesColl b) Primary # rest)
   \<and> (faults w (length (trace w)) = None \<longrightarrow>
        (\<exists>rest. trace (snd (createIndexes b w)) =
           trace w @ [CloneColl (filesColl b) Primary,
                      Call ((filesColl b)\<lparr>coll_rp := Primary\<rparr>) (OpFindOne FAll [(''_id'', BInt32 1)])]
                   @ rest))
   \<and> (files w \<noteq> [] \<longrightarrow>
        filesIndexes (snd (createIndexes b w)) = filesIndexes w \<and>
        chunksIndexes (snd (createIndexes b w)) = chunksIndexes w \<and>
        set (drop (length (trace w)) (trace (snd (createIndexes b w)))) \<subseteq>
          {CloneColl (filesColl b) Primary,
           Call ((filesColl b)\<lparr>coll_rp := Primary\<rparr>) (OpFindOne FAll [(''_id'', BInt32 1)])} \<and>
        (faults w (length (trace w)) = None \<and> faults w (Suc (length (trace w))) = None \<longrightarrow>
           createIndexes b w =
             (None, emit (Call ((filesColl b)\<lparr>coll_rp := Primary\<rparr>) (OpFindOne FAll [(''_id'', BInt32 1)]))
                      (emit (CloneColl (filesColl b) Primary) w))))"
proof -
  have "filesIndexes (snd (createIndexes b w)) = filesIndexes w \<and>
        chunksIndexes (snd (createIndexes b w)) = chunksIndexes w \<and>
        set (drop (length (trace w)) (trace (snd (createIndexes b w)))) \<subseteq>
          {CloneColl (filesColl b) Primary,
           Call ((filesColl b)\<lparr>coll_rp := Primary\<rparr>) (OpFindOne FAll [(''_id'', BInt32 1)])} \<and>
        (faults w (length (trace w)) = None \<and> faults w (Suc (length (trace w))) = None \<longrightarrow>
           createIndexes b w =
             (None, emit (Call ((filesColl b)\<lparr>coll_rp := Primary\<rparr>) (OpFindOne FAll [(''_id'', BInt32 1)]))
                      (emit (CloneColl (filesColl b) Primary) w)))"
    if "files w \<noteq> []"
    unfolding createIndexes_nonempty [OF that]
    by (simp add: Let_def emit_def split: option.splits)
  with createIndexes_trace [of b w] show ?thesis by blast
qed


theorem createIndexes_emptiness_check_witness:
  "rp example_bucket = Secondary
   \<and> createIndexes example_bucket example_world =
       (None, emit (Call \<lparr>coll_bucket = ''fs'', coll_kind = FilesColl, coll_rp = Primary\<rparr>
                       (OpFindOne FAll [(''_id'', BInt32 1)]))
                (emit (CloneColl (example_coll FilesColl) Primary) example_world))
   \<and> filesIndexes (snd (createIndexes example_bucket example_world)) = []
   \<and> chunksIndexes (snd (createIndexes example_bucket example_world)) = []"
proof -
  have h: "files example_world \<noteq> []" "faults example_world (length (trace example_world)) = None"
    "faults example_world (Suc (length (trace example_world))) = None"
    by (simp_all add: example_world_def)
  have e: "filesIndexes example_world = []" "chunksIndexes example_world = []"
    "filesColl example_bucket = example_coll FilesColl" "rp example_bucket = Secondary"
    "(example_coll FilesColl)\<lparr>coll_rp := Primary\<rparr> =
       \<lparr>coll_bucket = ''fs'', coll_kind = FilesColl, coll_rp = Primary\<rparr>"
    by (simp_all add: example_world_def example_bucket_def example_coll_def)
  from createIndexes_emptiness_check [of example_bucket example_world] h
  have "createIndexes example_bucket example_world =
      (None, emit (Call ((filesColl example_bucket)\<lparr>coll_rp := Primary\<rparr>)
                      (OpFindOne FAll [(''_id'', BInt32 1)]))
               (emit (CloneColl (filesColl example_bucket) Primary) example_world))
    \<and> filesIndexes (snd (createIndexes example_bucket example_world)) = filesIndexes example_world
    \<and> chunksIndexes (snd (createIndexes example_bucket example_world)) = chunksIndexes example_world"
    by blast
  then show ?thesis by (simp only: e) (simp add: emit_def e)
qed

lemma parseUploadOptions_trace:
  "\<exists>rest. trace (snd (parseUploadOptions b uo w)) = trace w @ rest"
  by (auto simp: parseUploadOptions_def ext_call_def emit_def Let_def split: option.splits)

lemma checkFirstWrite_unset:
  "\<not> firstWriteDone b \<Longrightarrow>
   checkFirstWrite b w =
     (case createIndexes b w of
        (Some e, w') \<Rightarrow> (Some e, b, w')
      | (None, w') \<Rightarrow> (None, b\<lparr>firstWriteDone := True\<rparr>, w'))"
  by (simp add: checkFirstWrite_def)

lemma OpenUploadStream_unset_trace:
  assumes "\<not> firstWriteDone b"
  shows "\<exists>rest. trace (snd (snd (OpenUploadStream b newID fname uo w))) =
           trace w @ CloneColl (filesColl b) Primary # rest"
proof -
  obtain r w1 where c: "createIndexes b w = (r, w1)" by (cases "createIndexes b w")
  from createIndexes_trace [of b w] c obtain rest where
    t: "trace w1 = trace w @ CloneColl (filesColl b) Primary # rest" by auto
  show ?thesis
  proof (cases r)
    case (Some e)
    with assms c t show ?thesis
      by (simp add: OpenUploadStream_def OpenUploadStreamWithID_def checkFirstWrite_unset)
  next
    case None
    obtain r2 w2 where p: "parseUploadOptions (b\<lparr>firstWriteDone := True\<rparr>) uo w1 = (r2, w2)"
      by (cases "parseUploadOptions (b\<lparr>firstWriteDone := True\<rparr>) uo w1")
    from parseUploadOptions_trace [of "b\<lparr>firstWriteDone := True\<rparr>" uo w1] p
    obtain rest2 where "trace w2 = trace w1 @ rest2" by auto
    with None assms c t p show ?thesis
      by (cases r2)
        (simp_all add: OpenUploadStream_def OpenUploadStreamWithID_def checkFirstWrite_unset)
  qed
qed

text \<open>
  Claim C6. When \<open>createIndexes\<close> fails in the first-write check of
  \<open>OpenUploadStream\<close>, the error is returned together with the bucket as it was, so
  \<open>firstWriteDone\<close> is still unset; the next \<open>OpenUploadStream\<close> on that bucket starts
  with the emptiness check again, and its first-write check is again a run of
  \<open>createIndexes\<close>.
\<close>

theorem OpenUploadStream_provisioning_failure:
  assumes "\<not> firstWriteDone b" and "createIndexes b w = (Some err, w1)"
  shows "OpenUploadStream b newID fname uo w = (Inl err, b, w1)
    \<and> checkFirstWrite b w = (Some err, b, w1)
    \<and> (\<exists>rest. trace (snd (snd (OpenUploadStream b newID' fname' uo' w2))) =
          trace w2 @ CloneColl (filesColl b) Primary # rest)
    \<and> checkFirstWrite b w2 =
        (case createIndexes b w2 of
           (Some e, w3) \<Rightarrow> (Some e, b, w3)
         | (None, w3) \<Rightarrow> (None, b\<lparr>firstWriteDone := True\<rparr>, w3))"
  using assms OpenUploadStream_unset_trace [OF assms(1), of newID' fname' uo' w2]
  by (simp add: OpenUploadStream_def OpenUploadStreamWithID_def checkFirstWrite_unset)


lemmas provisioning_defs =
  createIndexes_def FindOne_def createNumericalIndexIfNotExists_def ListIndexes_def
  CreateOne_def ext_call_def emit_def indexes_of_def filesModel_def chunksModel_def
  numericalIndexDocsEqual_def index_of_model_def index_name_def Let_def

lemmas example_defs =
  example_bucket_def example_coll_def example_world_def empty_world_def indexed_world_def
  shell_index_def second_call_fails_def no_upload_options_def example_file_def

theorem OpenUploadStream_provisioning_failure_witness:
  "\<exists>w1. OpenUploadStream example_bucket 11 ''f'' no_upload_options
           (empty_world\<lparr>faults := second_call_fails\<rparr>) =
         (Inl (StoreError 5), example_bucket, w1)
      \<and> fst (checkFirstWrite example_bucket (w1\<lparr>faults := (\<lambda>k. None)\<rparr>)) = None
      \<and> firstWriteDone (fst (snd (checkFirstWrite example_bucket (w1\<lparr>faults := (\<lambda>k. None)\<rparr>))))"
proof -
  let ?w0 = "empty_world\<lparr>faults := second_call_fails\<rparr>"
  let ?w1 = "emit (Call ((filesColl example_bucket)\<lparr>coll_rp := Primary\<rparr>)
                     (OpFindOne FAll [(''_id'', BInt32 1)]))
               (emit (CloneColl (filesColl example_bucket) Primary) ?w0)"
  let ?w2 = "?w1\<lparr>faults := (\<lambda>k. None)\<rparr>"
  have nf: "\<not> firstWriteDone example_bucket" by (simp add: example_bucket_def)
  have c: "createIndexes example_bucket ?w0 = (Some (StoreError 5), ?w1)"
    by (simp add: provisioning_defs example_defs)
  have "\<exists>w3. createIndexes example_bucket ?w2 = (None, w3)"
    by (simp add: provisioning_defs example_defs)
  then obtain w3 where c2: "createIndexes example_bucket ?w2 = (None, w3)" by blast
  note t = OpenUploadStream_provisioning_failure [OF nf c, of 11 "''f''" no_upload_options
      11 "''f''" no_upload_options ?w2]
  from t have a: "OpenUploadStream example_bucket 11 ''f'' no_upload_options ?w0 =
      (Inl (StoreError 5), example_bucket, ?w1)" by blast
  from t c2 have b: "checkFirstWrite example_bucket ?w2 =
      (None, example_bucket\<lparr>firstWriteDone := True\<rparr>, w3)" by simp
  from a b show ?thesis by (intro exI [of _ ?w1]) simp
qed

lemma NewBucket_handles_ok: "bucket_handles_ok (NewBucket db_rp bo)"
  by (simp add: NewBucket_def bucket_handles_ok_def Let_def)

lemma grows_by_refl: "grows_by m xs xs"
  by (simp add: grows_by_def)

lemma grows_by_twice:
  assumes "grows_by m xs ys" and "grows_by m ys zs"
  shows "zs = xs \<or> zs = xs @ [index_of_model m]"
proof (cases "ys = xs")
  case True
  with assms(2) show ?thesis by (auto simp: grows_by_def)
next
  case False
  with assms(1) have ys: "ys = xs @ [index_of_model m]"
    and nl: "indexListed (im_keys m) xs = Inr False"
    by (auto simp: grows_by_def)
  from nl have "indexListed (im_keys m) ys = Inr True"
    unfolding ys index_of_model_def by (rule indexListed_snoc)
  with assms(2) ys show ?thesis by (auto simp: grows_by_def)
qed

lemma createIndexes_grows:
  assumes ok: "bucket_handles_ok b" and c: "createIndexes b w = (r, w')"
  shows "grows_by filesModel (filesIndexes w) (filesIndexes w') \<and>
         grows_by chunksModel (chunksIndexes w) (chunksIndexes w')"
proof -
  let ?e1 = "CloneColl (filesColl b) Primary"
  let ?e2 = "Call ((filesColl b)\<lparr>coll_rp := Primary\<rparr>) (OpFindOne FAll [(''_id'', BInt32 1)])"
  let ?w2 = "emit ?e2 (emit ?e1 w)"
  from ok have kf: "coll_kind (filesColl b) = FilesColl" and kc: "coll_kind (chunksColl b) = ChunksColl"
    by (simp_all add: bucket_handles_ok_def)
  obtain r3 w3 where c3: "createNumericalIndexIfNotExists (filesColl b) filesModel ?w2 = (r3, w3)"
    by (cases "createNumericalIndexIfNotExists (filesColl b) filesModel ?w2")
  obtain r4 w4 where c4: "createNumericalIndexIfNotExists (chunksColl b) chunksModel w3 = (r4, w4)"
    by (cases "createNumericalIndexIfNotExists (chunksColl b) chunksModel w3")
  have i2: "filesIndexes ?w2 = filesIndexes w" "chunksIndexes ?w2 = chunksIndexes w"
    by (simp_all add: emit_def)
  from createNumericalIndexIfNotExists_cases [OF c3] kf i2
  have g3: "grows_by filesModel (filesIndexes w) (filesIndexes w3)"
    "chunksIndexes w3 = chunksIndexes w"
    by (auto simp: grows_by_def indexes_of_def)
  from createNumericalIndexIfNotExists_cases [OF c4] kc
  have g4: "grows_by chunksModel (chunksIndexes w3) (chunksIndexes w4)"
    "filesIndexes w4 = filesIndexes w3"
    by (auto simp: grows_by_def indexes_of_def)
  have w': "w' = emit ?e1 w \<or> w' = ?w2 \<or> w' = w3 \<or> w' = w4"
    using c c3 c4
    by (auto simp: createIndexes_def FindOne_def ext_call_def Let_def
        split: option.splits sum.splits list.splits if_splits)
  have i1: "filesIndexes (emit ?e1 w) = filesIndexes w" "chunksIndexes (emit ?e1 w) = chunksIndexes w"
    by (simp_all add: emit_def)
  from w' g3 g4 i1 i2 show ?thesis
    by (auto simp: grows_by_refl)
qed

lemma checkFirstWrite_grows:
  assumes ok: "bucket_handles_ok b" and c: "checkFirstWrite b w = (r, b', w')"
  shows "bucket_handles_ok b' \<and>
         grows_by filesModel (filesIndexes w) (filesIndexes w') \<and>
         grows_by chunksModel (chunksIndexes w) (chunksIndexes w')"
proof (cases "firstWriteDone b")
  case True
  with c ok show ?thesis by (auto simp: checkFirstWrite_def grows_by_refl)
next
  case False
  obtain r1 w1 where ci: "createIndexes b w = (r1, w1)" by (cases "createIndexes b w")
  from False c ci have "w' = w1" and "b' = b \<or> b' = b\<lparr>firstWriteDone := True\<rparr>"
    by (auto simp: checkFirstWrite_def split: option.splits)
  with createIndexes_grows [OF ok ci] ok show ?thesis
    by (auto simp: bucket_handles_ok_def)
qed

lemma checkFirstWrite_done:
  assumes "checkFirstWrite b w = (None, b1, w1)"
  shows "firstWriteDone b1 \<and> checkFirstWrite b1 w1 = (None, b1, w1)"
  using assms by (auto simp: checkFirstWrite_def split: if_splits option.splits prod.splits)

text \<open>
  Claim C3. Two runs of \<open>checkFirstWrite\<close> in a row leave each of the two index lists
  as it was or with the one index of the model added, so each index is created at most
  once. When the first run succeeds it sets \<open>firstWriteDone\<close> and the second run
  changes nothing. Within a run, \<open>createNumericalIndexIfNotExists\<close> creates nothing
  when the listing has an index whose key specification equals the keys of the model
  field by field with numerically equal values, whatever its name.
\<close>

theorem checkFirstWrite_idempotent:
  "(bucket_handles_ok b \<and> checkFirstWrite b w = (r1, b1, w1) \<and>
    checkFirstWrite b1 w1 = (r2, b2, w2) \<longrightarrow>
      (filesIndexes w2 = filesIndexes w \<or>
       filesIndexes w2 = filesIndexes w @ [index_of_model filesModel]) \<and>
      (chunksIndexes w2 = chunksIndexes w \<or>
       chunksIndexes w2 = chunksIndexes w @ [index_of_model chunksModel]))
   \<and> (checkFirstWrite b w = (None, b1, w1) \<longrightarrow>
        firstWriteDone b1 \<and> checkFirstWrite b1 w1 = (None, b1, w1))
   \<and> (d \<in> set (indexes_of iv w0) \<and> ix_key d = Some k \<and>
      keys_numerically_equal (im_keys model) k \<longrightarrow>
        filesIndexes (snd (createNumericalIndexIfNotExists iv model w0)) = filesIndexes w0 \<and>
        chunksIndexes (snd (createNumericalIndexIfNotExists iv model w0)) = chunksIndexes w0 \<and>
        (\<forall>c m. Call c (OpCreateIndex m) \<notin>
           set (drop (length (trace w0)) (trace (snd (createNumericalIndexIfNotExists iv model w0))))))"
proof (intro conjI impI)
  assume a: "bucket_handles_ok b \<and> checkFirstWrite b w = (r1, b1, w1) \<and>
    checkFirstWrite b1 w1 = (r2, b2, w2)"
  then have s1: "bucket_handles_ok b1 \<and>
         grows_by filesModel (filesIndexes w) (filesIndexes w1) \<and>
         grows_by chunksModel (chunksIndexes w) (chunksIndexes w1)"
    using checkFirstWrite_grows [of b w r1 b1 w1] by simp
  with a have s2: "grows_by filesModel (filesIndexes w1) (filesIndexes w2) \<and>
         grows_by chunksModel (chunksIndexes w1) (chunksIndexes w2)"
    using checkFirstWrite_grows [of b1 w1 r2 b2 w2] by simp
  from s1 s2 show "filesIndexes w2 = filesIndexes w \<or>
       filesIndexes w2 = filesIndexes w @ [index_of_model filesModel]"
    using grows_by_twice [of filesModel "filesIndexes w" "filesIndexes w1" "filesIndexes w2"]
    by simp
  from s1 s2 show "chunksIndexes w2 = chunksIndexes w \<or>
       chunksIndexes w2 = chunksIndexes w @ [index_of_model chunksModel]"
    using grows_by_twice [of chunksModel "chunksIndexes w" "chunksIndexes w1" "chunksIndexes w2"]
    by simp
next
  assume a: "checkFirstWrite b w = (None, b1, w1)"
  from checkFirstWrite_done [OF a] show "firstWriteDone b1" by simp
  from checkFirstWrite_done [OF a] show "checkFirstWrite b1 w1 = (None, b1, w1)" by simp
next
  assume a: "d \<in> set (indexes_of iv w0) \<and> ix_key d = Some k \<and>
      keys_numerically_equal (im_keys model) k"
  note l = createNumericalIndexIfNotExists_listed [of d iv w0 k model]
  from a l show "filesIndexes (snd (createNumericalIndexIfNotExists iv model w0)) = filesIndexes w0"
    by blast
  from a l show "chunksIndexes (snd (createNumericalIndexIfNotExists iv model w0)) = chunksIndexes w0"
    by blast
  from a l show "\<forall>c m. Call c (OpCreateIndex m) \<notin>
           set (drop (length (trace w0)) (trace (snd (createNumericalIndexIfNotExists iv model w0))))"
    by blast
qed


lemma double_one: "double_to_int64 0x3FF0000000000000 = 1"
  by (simp add: double_to_int64_def Let_def bit_iff_odd)

theorem checkFirstWrite_idempotent_witness:
  "(\<exists>b1 w1. checkFirstWrite example_bucket empty_world = (None, b1, w1) \<and>
       checkFirstWrite b1 w1 = (None, b1, w1) \<and> firstWriteDone b1 \<and>
       length (filesIndexes w1) \<le> 1 \<and> length (chunksIndexes w1) \<le> 1)
   \<and> filesIndexes (snd (createNumericalIndexIfNotExists (example_coll FilesColl) filesModel
         indexed_world)) = [shell_index]"
proof -
  have "\<exists>b1 w1. checkFirstWrite example_bucket empty_world = (None, b1, w1)"
    by (simp add: checkFirstWrite_def provisioning_defs example_defs)
  then obtain b1 w1 where c1: "checkFirstWrite example_bucket empty_world = (None, b1, w1)"
    by blast
  have ok: "bucket_handles_ok example_bucket"
    by (simp add: bucket_handles_ok_def example_defs)
  have e: "filesIndexes empty_world = []" "chunksIndexes empty_world = []"
    by (simp_all add: example_defs)
  have m: "shell_index \<in> set (indexes_of (example_coll FilesColl) indexed_world)"
    "filesIndexes indexed_world = [shell_index]"
    by (simp_all add: indexes_of_def example_defs)
  have k: "ix_key shell_index =
      Some [(''filename'', BDouble 0x3FF0000000000000), (''uploadDate'', BInt64 1)]"
    by (simp add: shell_index_def)
  have q: "keys_numerically_equal (im_keys filesModel)
      [(''filename'', BDouble 0x3FF0000000000000), (''uploadDate'', BInt64 1)]"
    by (simp add: keys_numerically_equal_def filesModel_def double_one)
  note t = checkFirstWrite_idempotent [of example_bucket empty_world None b1 w1 None b1 w1
      shell_index "example_coll FilesColl" indexed_world
      "[(''filename'', BDouble 0x3FF0000000000000), (''uploadDate'', BInt64 1)]" filesModel]
  from t c1 have c2: "checkFirstWrite b1 w1 = (None, b1, w1)" and f: "firstWriteDone b1"
    by blast+
  from t ok c1 c2 e have l: "length (filesIndexes w1) \<le> 1 \<and> length (chunksIndexes w1) \<le> 1"
    by auto
  from t m k q have "filesIndexes (snd (createNumericalIndexIfNotExists (example_coll FilesColl)
      filesModel indexed_world)) = [shell_index]"
    by simp
  with c1 c2 f l show ?thesis by blast
qed

subsection \<open>Uploading from a source\<close>

declare flushFull.simps [simp del]

lemma same_stream_refl: "same_stream us us"
  by (simp add: same_stream_def)

lemma same_stream_trans: "same_stream a b \<Longrightarrow> same_stream b c \<Longrightarrow> same_stream a c"
  by (simp add: same_stream_def)

lemma persistChunk_facts:
  assumes "persistChunk k us w = (r, us', w')"
  shows "same_stream us us' \<and> files w' = files w \<and> faults w' = faults w \<and>
         (\<exists>ev. trace w' = trace w @ [ev] \<and> is_call ev) \<and>
         us_fileLen us' + length (us_buffer us') = us_fileLen us + length (us_buffer us) \<and>
         (r = None \<longrightarrow> us_buffer us' = drop k (us_buffer us))"
  using assms
  by (auto simp: persistChunk_def InsertChunk_def ext_call_def emit_def same_stream_def
      split: option.splits)

lemma flushFull_facts:
  "flushFull us w = (r, us', w') \<Longrightarrow>
     same_stream us us' \<and> files w' = files w \<and> faults w' = faults w \<and>
     (\<exists>evs. trace w' = trace w @ evs \<and> list_all is_call evs) \<and>
     us_fileLen us' + length (us_buffer us') = us_fileLen us + length (us_buffer us)"
proof (induction us w arbitrary: r us' w' rule: flushFull.induct)
  case (1 us w)
  show ?case
  proof (cases "0 < us_chunkLen us \<and> us_chunkLen us \<le> length (us_buffer us)")
    case False
    with "1.prems" show ?thesis
      by (auto simp: flushFull.simps [of us w] same_stream_refl)
  next
    case True
    obtain r1 us1 w1 where p: "persistChunk (us_chunkLen us) us w = (r1, us1, w1)"
      by (cases "persistChunk (us_chunkLen us) us w")
    note pf = persistChunk_facts [OF p]
    show ?thesis
    proof (cases r1)
      case (Some e)
      with True p "1.prems" have "r = Some e" "us' = us1" "w' = w1"
        by (simp_all add: flushFull.simps [of us w])
      with pf show ?thesis by auto
    next
      case None
      with True p "1.prems" have f: "flushFull us1 w1 = (r, us', w')"
        by (simp add: flushFull.simps [of us w])
      from "1.IH" [OF True p [symmetric] None refl f]
      have ih: "same_stream us1 us' \<and> files w' = files w1 \<and> faults w' = faults w1 \<and>
         (\<exists>evs. trace w' = trace w1 @ evs \<and> list_all is_call evs) \<and>
         us_fileLen us' + length (us_buffer us') = us_fileLen us1 + length (us_buffer us1)"
        by simp
      with pf show ?thesis
        by (auto intro: same_stream_trans)
    qed
  qed
qed


lemma usWrite_facts:
  assumes "usWrite us p w = (r, us', w')"
  shows "same_stream us us' \<and> files w' = files w \<and> faults w' = faults w \<and>
         (\<exists>evs. trace w' = trace w @ Invoke (UsWrite p) # evs @ [Return (UsWrite p) r] \<and>
                list_all is_call evs)"
proof (cases "us_state us = Open")
  case False
  with assms show ?thesis
    by (auto simp: usWrite_def Let_def emit_def same_stream_refl)
next
  case True
  let ?w0 = "emit (Invoke (UsWrite p)) w"
  let ?us0 = "us\<lparr>us_buffer := us_buffer us @ p\<rparr>"
  obtain r1 us1 w1 where f: "flushFull ?us0 ?w0 = (r1, us1, w1)"
    by (cases "flushFull ?us0 ?w0")
  from flushFull_facts [OF f] obtain evs where
    ff: "same_stream ?us0 us1" "files w1 = files ?w0" "faults w1 = faults ?w0"
      "trace w1 = trace ?w0 @ evs" "list_all is_call evs"
    by auto
  from True f assms have "r = r1" "us' = us1" "w' = emit (Return (UsWrite p) r1) w1"
    by (auto simp: usWrite_def Let_def)
  with ff show ?thesis
    by (auto simp: emit_def same_stream_def)
qed

lemma usAbort_open:
  assumes "us_state us = Open" and "usAbort us w = (r, us', w')"
  shows "trace w' = trace w @ [Invoke UsAbort,
           Call (us_chunksColl us) (OpDeleteMany (FFilesId (us_fileID us))), Return UsAbort r]
       \<and> files w' = files w \<and> us_state us' = Aborted
       \<and> (r = None \<longrightarrow> chunks w' = filter (\<lambda>c. cd_filesId c \<noteq> us_fileID us) (chunks w))"
proof -
  have c: "matches_chunk (FFilesId i) = (\<lambda>c. cd_filesId c = i)" for i by (rule ext) simp
  from assms show ?thesis
    by (auto simp: usAbort_def DeleteMany_def ext_call_def emit_def Let_def c
        split: option.splits)
qed

lemma usClose_open:
  assumes "us_state us = Open" and "usClose us w = (r, us', w')"
  shows "(\<exists>evs. trace w' = trace w @ Invoke UsClose # evs @ [Return UsClose r] \<and>
                list_all is_call evs)
       \<and> (r = None \<longrightarrow>
            us_state us' = Closed \<and>
            (\<exists>d. files w' = files w @ [d] \<and> fd_id d = us_fileID us \<and>
                 fd_filename d = us_filename us \<and>
                 fd_length d = int (us_fileLen us + length (us_buffer us))))"
  using assms
  by (auto simp: usClose_def persistChunk_def InsertChunk_def InsertFile_def ext_call_def
      emit_def Let_def split: option.splits if_splits)

lemma uploadLoop_events:
  "us_state us = Open \<Longrightarrow> uploadLoop us src w = (ex, us', w') \<Longrightarrow>
     \<exists>evs. trace w' = trace w @ evs \<and>
           loop_events (us_chunksColl us) (us_fileID us) ex evs"
proof (induction src arbitrary: us w)
  case Nil
  then show ?case by (auto simp: emit_def intro: loop_events.ends)
next
  case (Cons a rest)
  obtain p err where a: "a = (p, err)" by (cases a)
  let ?w1 = "emit (SrcRead p err) w"
  show ?case
  proof (cases "\<exists>e. err = Some e \<and> e \<noteq> EOF")
    case True
    then obtain e where e: "err = Some e" "e \<noteq> EOF" by blast
    obtain r us2 w2 where ab: "usAbort us ?w1 = (r, us2, w2)" by (cases "usAbort us ?w1")
    from Cons.prems(2) a e ab have "ex = Returned e" "w' = w2"
      by (simp_all add: Let_def)
    with usAbort_open [OF Cons.prems(1) ab] e show ?thesis
      by (auto simp: emit_def intro: loop_events.read_fails)
  next
    case False
    then have noerr: "err = None \<or> err = Some EOF" by (cases err) auto
    then have sel: "(case err of None \<Rightarrow> None | Some e \<Rightarrow> if e \<noteq> EOF then Some e else None) = None"
      by auto
    show ?thesis
    proof (cases "p = []")
      case True
      with Cons.prems(2) a sel have "ex = Broke" "w' = ?w1"
        by (simp_all add: Let_def)
      with True noerr show ?thesis
        by (auto simp: emit_def intro: loop_events.ends)
    next
      case False
      obtain r us2 w2 where wr: "usWrite us p ?w1 = (r, us2, w2)" by (cases "usWrite us p ?w1")
      from usWrite_facts [OF wr] obtain cs where
        wf: "same_stream us us2"
          "trace w2 = trace ?w1 @ Invoke (UsWrite p) # cs @ [Return (UsWrite p) r]"
          "list_all is_call cs"
        by auto
      show ?thesis
      proof (cases r)
        case (Some e)
        with Cons.prems(2) a sel False wr have "ex = Returned e" "w' = w2"
          by (simp_all add: Let_def)
        with wf Some False noerr show ?thesis
          by (auto simp: emit_def intro: loop_events.write_fails)
      next
        case None
        show ?thesis
        proof (cases "err = Some EOF")
          case True
          with Cons.prems(2) a sel False wr None have "ex = Broke" "w' = w2"
            by (simp_all add: Let_def)
          with wf None False True show ?thesis
            by (auto simp: emit_def intro: loop_events.ends_with_data)
        next
          case ne: False
          with noerr have en: "err = None" by simp
          with Cons.prems(2) a False wr None have l: "uploadLoop us2 rest w2 = (ex, us', w')"
            by (simp add: Let_def)
          from wf(1) Cons.prems(1) have o: "us_state us2 = Open"
            and id: "us_chunksColl us2 = us_chunksColl us" "us_fileID us2 = us_fileID us"
            by (simp_all add: same_stream_def)
          from Cons.IH [OF o l] id obtain evs where
            ih: "trace w' = trace w2 @ evs" "loop_events (us_chunksColl us) (us_fileID us) ex evs"
            by auto
          from ih wf None en False show ?thesis
            by (auto simp: emit_def intro: loop_events.continues)
        qed
      qed
    qed
  qed
qed


lemma calls_only:
  "list_all is_call cs \<Longrightarrow> ev \<in> set cs \<Longrightarrow> is_call ev"
  by (simp add: list_all_iff)

lemma loop_events_nonempty: "loop_events c i ex evs \<Longrightarrow> evs \<noteq> []"
  by (induction rule: loop_events.induct) auto

lemma loop_events_read_error:
  assumes "loop_events c i ex evs" and "SrcRead p (Some e) \<in> set evs" and "e \<noteq> EOF"
  shows "ex = Returned e \<and>
         (\<exists>pre r. evs = pre @ [SrcRead p (Some e), Invoke UsAbort,
                                Call c (OpDeleteMany (FFilesId i)), Return UsAbort r])"
  using assms
proof (induction rule: loop_events.induct)
  case (ends e0)
  then show ?case by auto
next
  case (ends_with_data p' cs)
  then show ?case by (auto dest: calls_only)
next
  case (read_fails e' p' r)
  then show ?case by auto
next
  case (write_fails p' e0 cs err)
  then show ?case by (auto dest: calls_only)
next
  case (continues p' cs ex evs)
  from continues.prems continues.hyps have "SrcRead p (Some e) \<in> set evs"
    by (auto dest: calls_only)
  from continues.IH [OF this continues.prems(2)] obtain pre r where
    "ex = Returned e" "evs = pre @ [SrcRead p (Some e), Invoke UsAbort,
                                Call c (OpDeleteMany (FFilesId i)), Return UsAbort r]"
    by blast
  then have "ex = Returned e \<and> SrcRead p' None # Invoke (UsWrite p') # cs @ Return (UsWrite p') None # evs =
      (SrcRead p' None # Invoke (UsWrite p') # cs @ Return (UsWrite p') None # pre) @
        [SrcRead p (Some e), Invoke UsAbort, Call c (OpDeleteMany (FFilesId i)), Return UsAbort r]"
    by simp
  then show ?case by blast
qed

lemma loop_events_exhausted:
  assumes "loop_events c i ex evs"
    and "SrcRead q e0 \<in> set evs" and "e0 = Some EOF \<or> (q = [] \<and> e0 = None)"
    and "\<forall>q err. Return (UsWrite q) (Some err) \<notin> set evs"
  shows "ex = Broke"
  using assms
  by (induction rule: loop_events.induct) (auto dest: calls_only loop_events_nonempty)

lemma loop_events_no_close:
  "loop_events c i ex evs \<Longrightarrow> Invoke UsClose \<notin> set evs"
  by (induction rule: loop_events.induct) (auto dest: calls_only)

lemma loop_events_broke_no_abort:
  "loop_events c i ex evs \<Longrightarrow> ex = Broke \<Longrightarrow> Invoke UsAbort \<notin> set evs"
  by (induction rule: loop_events.induct) (auto dest: calls_only)

lemma loop_events_returned:
  assumes "loop_events c i ex evs" and "ex = Returned err"
  shows "(\<exists>p r. err \<noteq> EOF \<and> SrcRead p (Some err) \<in> set evs \<and> last evs = Return UsAbort r \<and>
                Invoke UsAbort \<in> set evs)
       \<or> (\<exists>q. last evs = Return (UsWrite q) (Some err) \<and> Invoke UsAbort \<notin> set evs)"
  using assms
  by (induction rule: loop_events.induct) (auto dest: calls_only loop_events_nonempty)


lemma uploadLoop_state:
  "us_state us = Open \<Longrightarrow> uploadLoop us src w = (ex, us', w') \<Longrightarrow>
     us_fileID us' = us_fileID us \<and> us_filename us' = us_filename us \<and>
     us_filesColl us' = us_filesColl us \<and> us_chunksColl us' = us_chunksColl us \<and>
     us_upload us' = us_upload us \<and> files w' = files w \<and> faults w' = faults w \<and>
     ((\<forall>r. last (trace w') \<noteq> Return UsAbort r) \<longrightarrow> us_state us' = Open) \<and>
     (last (trace w') = Return UsAbort None \<longrightarrow>
        (\<forall>c \<in> set (chunks w'). cd_filesId c \<noteq> us_fileID us))"
proof (induction src arbitrary: us w)
  case Nil
  then show ?case by (auto simp: emit_def)
next
  case (Cons a rest)
  obtain p err where a: "a = (p, err)" by (cases a)
  let ?w1 = "emit (SrcRead p err) w"
  have w1: "files ?w1 = files w" "faults ?w1 = faults w" "chunks ?w1 = chunks w"
    by (simp_all add: emit_def)
  show ?case
  proof (cases "\<exists>e. err = Some e \<and> e \<noteq> EOF")
    case True
    then obtain e where e: "err = Some e" "e \<noteq> EOF" by blast
    obtain r us2 w2 where ab: "usAbort us ?w1 = (r, us2, w2)" by (cases "usAbort us ?w1")
    from Cons.prems(2) a e ab have x: "us' = us2" "w' = w2"
      by (simp_all add: Let_def)
    from Cons.prems(1) ab have id: "us_fileID us2 = us_fileID us \<and> us_filename us2 = us_filename us \<and>
        us_filesColl us2 = us_filesColl us \<and> us_chunksColl us2 = us_chunksColl us \<and>
        us_upload us2 = us_upload us \<and> faults w2 = faults ?w1"
      by (auto simp: usAbort_def DeleteMany_def ext_call_def emit_def Let_def
          split: option.splits)
    from usAbort_open [OF Cons.prems(1) ab] id x w1 show ?thesis
      by auto
  next
    case False
    then have noerr: "err = None \<or> err = Some EOF" by (cases err) auto
    then have sel: "(case err of None \<Rightarrow> None | Some e \<Rightarrow> if e \<noteq> EOF then Some e else None) = None"
      by auto
    show ?thesis
    proof (cases "p = []")
      case True
      with Cons.prems(2) a sel have "us' = us" "w' = ?w1"
        by (simp_all add: Let_def)
      with Cons.prems(1) show ?thesis
        by (auto simp: emit_def)
    next
      case False
      obtain r us2 w2 where wr: "usWrite us p ?w1 = (r, us2, w2)" by (cases "usWrite us p ?w1")
      from usWrite_facts [OF wr] obtain cs where
        wf: "same_stream us us2" "files w2 = files ?w1" "faults w2 = faults ?w1"
          "trace w2 = trace ?w1 @ Invoke (UsWrite p) # cs @ [Return (UsWrite p) r]"
        by auto
      from wf(1) Cons.prems(1) have o: "us_state us2 = Open"
        and id: "us_fileID us2 = us_fileID us" "us_filename us2 = us_filename us"
          "us_filesColl us2 = us_filesColl us" "us_chunksColl us2 = us_chunksColl us"
          "us_upload us2 = us_upload us"
        by (simp_all add: same_stream_def)
      have stop: ?thesis if "us' = us2" "w' = w2"
        using that o id wf w1 by simp
      show ?thesis
      proof (cases r)
        case (Some e)
        with Cons.prems(2) a sel False wr have "us' = us2" "w' = w2"
          by (simp_all add: Let_def)
        then show ?thesis by (rule stop)
      next
        case None
        show ?thesis
        proof (cases "err = Some EOF")
          case True
          with Cons.prems(2) a sel False wr None have "us' = us2" "w' = w2"
            by (simp_all add: Let_def)
          then show ?thesis by (rule stop)
        next
          case ne: False
          with noerr have en: "err = None" by simp
          with Cons.prems(2) a False wr None have l: "uploadLoop us2 rest w2 = (ex, us', w')"
            by (simp add: Let_def)
          from Cons.IH [OF o l] id wf w1 show ?thesis by simp
        qed
      qed
    qed
  qed
qed

lemma OpenUploadStreamWithID_Inr:
  assumes "OpenUploadStreamWithID b fileID fname uo w = (Inr us, b1, w1)"
  shows "us_state us = Open \<and> us_fileID us = fileID \<and> us_filename us = fname \<and>
         us_chunksColl us = chunksColl b1 \<and> us_filesColl us = filesColl b1 \<and>
         us_buffer us = [] \<and> us_fileLen us = 0"
  using assms
  by (auto simp: OpenUploadStreamWithID_def newUploadStream_def
      split: prod.splits option.splits sum.splits)

lemma UploadFromStreamWithID_opened:
  assumes "OpenUploadStreamWithID b fileID fname uo w = (Inr us, b1, w1)"
  shows "UploadFromStreamWithID b fileID fname src uo w =
     (case uploadLoop (us\<lparr>us_writeDeadline := writeDeadline b1\<rparr>) src
             (emit (Return UsSetWriteDeadline None) (emit (Invoke UsSetWriteDeadline) w1)) of
        (Returned err, us2, w3) \<Rightarrow> (Some err, b1, w3)
      | (Broke, us2, w3) \<Rightarrow> (case usClose us2 w3 of (err, us3, w4) \<Rightarrow> (err, b1, w4)))"
  using assms OpenUploadStreamWithID_Inr [OF assms]
  by (simp add: UploadFromStreamWithID_def usSetWriteDeadline_def Let_def)


lemma new_events_append: "trace w' = trace w @ evs \<Longrightarrow> new_events w w' = evs"
  by (simp add: new_events_def)

text \<open>
  A run of \<open>UploadFromStreamWithID\<close> that has opened its stream: the deadline is set,
  the loop runs, and the stream is closed if the loop was left by \<open>break\<close>.
\<close>

lemma UploadFromStreamWithID_run:
  assumes opened: "OpenUploadStreamWithID b fileID fname uo w = (Inr us, b1, w1)"
    and run: "UploadFromStreamWithID b fileID fname src uo w = (res, b2, w2)"
  shows "\<exists>ex us2 w3 evs.
           trace w3 = trace w1 @ [Invoke UsSetWriteDeadline, Return UsSetWriteDeadline None] @ evs \<and>
           loop_events (chunksColl b1) fileID ex evs \<and> files w3 = files w1 \<and> b2 = b1 \<and>
           us_fileID us2 = fileID \<and> us_filename us2 = fname \<and>
           ((\<forall>r. last (trace w3) \<noteq> Return UsAbort r) \<longrightarrow> us_state us2 = Open) \<and>
           (last (trace w3) = Return UsAbort None \<longrightarrow>
              (\<forall>c \<in> set (chunks w3). cd_filesId c \<noteq> fileID)) \<and>
           (case ex of
              Returned err \<Rightarrow> res = Some err \<and> w2 = w3
            | Broke \<Rightarrow> us_state us2 = Open \<and> (\<exists>us3. usClose us2 w3 = (res, us3, w2)))"
proof -
  let ?us1 = "us\<lparr>us_writeDeadline := writeDeadline b1\<rparr>"
  let ?w1 = "emit (Return UsSetWriteDeadline None) (emit (Invoke UsSetWriteDeadline) w1)"
  note o = OpenUploadStreamWithID_Inr [OF opened]
  from o have open1: "us_state ?us1 = Open" by simp
  obtain ex us2 w3 where l: "uploadLoop ?us1 src ?w1 = (ex, us2, w3)"
    by (cases "uploadLoop ?us1 src ?w1")
  from uploadLoop_events [OF open1 l] o obtain evs where
    ev: "trace w3 = trace ?w1 @ evs" "loop_events (chunksColl b1) fileID ex evs"
    by auto
  note st = uploadLoop_state [OF open1 l]
  have t: "trace w3 = trace w1 @ [Invoke UsSetWriteDeadline, Return UsSetWriteDeadline None] @ evs"
    using ev(1) by (simp add: emit_def)
  have f: "files w3 = files w1" using st by (simp add: emit_def)
  have brk: "us_state us2 = Open" if "ex = Broke"
  proof -
    from ev(2) that have "evs \<noteq> []" "Invoke UsAbort \<notin> set evs"
      by (auto dest: loop_events_nonempty loop_events_broke_no_abort)
    have "last (trace w3) \<noteq> Return UsAbort r" for r
    proof
      assume "last (trace w3) = Return UsAbort r"
      with t \<open>evs \<noteq> []\<close> have "last evs = Return UsAbort r" by simp
      with ev(2) that show False
        by (induction rule: loop_events.induct) (auto split: if_splits dest: loop_events_nonempty)
    qed
    with st show ?thesis by simp
  qed
  from run have r: "(case ex of
              Returned err \<Rightarrow> res = Some err \<and> w2 = w3 \<and> b2 = b1
            | Broke \<Rightarrow> b2 = b1 \<and> (\<exists>us3. usClose us2 w3 = (res, us3, w2)))"
    unfolding UploadFromStreamWithID_opened [OF opened] l
    by (auto split: loop_exit.splits prod.splits)
  from t ev(2) f st o r brk show ?thesis
    by (intro exI [of _ ex] exI [of _ us2] exI [of _ w3] exI [of _ evs])
      (auto split: loop_exit.splits)
qed


text \<open>
  What the trace of a run that has opened its stream tells: a read that returned an
  error other than \<open>io.EOF\<close> is followed by the abort and by the return of that
  error, and a read that ended the source, when no write has failed, by the close.
\<close>

lemma UploadFromStreamWithID_read_error_or_exhausted:
  assumes opened: "OpenUploadStreamWithID b fileID fname uo w = (Inr us, b1, w1)"
    and run: "UploadFromStreamWithID b fileID fname src uo w = (res, b2, w2)"
  shows "(SrcRead p (Some e) \<in> set (new_events w1 w2) \<and> e \<noteq> EOF \<longrightarrow>
            res = Some e \<and> files w2 = files w1 \<and>
            (\<exists>pre r. new_events w1 w2 =
                pre @ [SrcRead p (Some e), Invoke UsAbort,
                       Call (chunksColl b1) (OpDeleteMany (FFilesId fileID)), Return UsAbort r] \<and>
                (r = None \<longrightarrow> (\<forall>c \<in> set (chunks w2). cd_filesId c \<noteq> fileID))))
       \<and> (SrcRead q e0 \<in> set (new_events w1 w2) \<and> (e0 = Some EOF \<or> (q = [] \<and> e0 = None)) \<and>
          (\<forall>q' err. Return (UsWrite q') (Some err) \<notin> set (new_events w1 w2)) \<longrightarrow>
            (\<exists>pre cs. new_events w1 w2 = pre @ Invoke UsClose # cs @ [Return UsClose res] \<and>
                list_all is_call cs \<and> Invoke UsAbort \<notin> set pre \<and> Invoke UsClose \<notin> set pre) \<and>
            (res = None \<longrightarrow>
               (\<exists>d. files w2 = files w1 @ [d] \<and> fd_id d = fileID \<and> fd_filename d = fname)))"
proof -
  from UploadFromStreamWithID_run [OF opened run] obtain ex us2 w3 evs where
    t: "trace w3 = trace w1 @ [Invoke UsSetWriteDeadline, Return UsSetWriteDeadline None] @ evs"
    and le: "loop_events (chunksColl b1) fileID ex evs"
    and f: "files w3 = files w1"
    and id: "us_fileID us2 = fileID" "us_filename us2 = fname"
    and ch: "last (trace w3) = Return UsAbort None \<longrightarrow>
              (\<forall>c \<in> set (chunks w3). cd_filesId c \<noteq> fileID)"
    and r: "case ex of
              Returned err \<Rightarrow> res = Some err \<and> w2 = w3
            | Broke \<Rightarrow> us_state us2 = Open \<and> (\<exists>us3. usClose us2 w3 = (res, us3, w2))"
    by blast
  let ?hd = "[Invoke UsSetWriteDeadline, Return UsSetWriteDeadline None]"
  show ?thesis
  proof (cases ex)
    case (Returned err)
    with r have res: "res = Some err" and w2: "w2 = w3" by simp_all
    from t w2 have ne: "new_events w1 w2 = ?hd @ evs" by (simp add: new_events_append)
    have one: "res = Some e \<and> files w2 = files w1 \<and>
            (\<exists>pre r. new_events w1 w2 =
                pre @ [SrcRead p (Some e), Invoke UsAbort,
                       Call (chunksColl b1) (OpDeleteMany (FFilesId fileID)), Return UsAbort r] \<and>
                (r = None \<longrightarrow> (\<forall>c \<in> set (chunks w2). cd_filesId c \<noteq> fileID)))"
      if a: "SrcRead p (Some e) \<in> set (new_events w1 w2) \<and> e \<noteq> EOF"
    proof -
      from a ne have m: "SrcRead p (Some e) \<in> set evs" by simp
      from loop_events_read_error [OF le m] a obtain pre r0 where
        x: "ex = Returned e" and evs: "evs = pre @ [SrcRead p (Some e), Invoke UsAbort,
              Call (chunksColl b1) (OpDeleteMany (FFilesId fileID)), Return UsAbort r0]"
        by blast
      from t evs have "last (trace w3) = Return UsAbort r0" by simp
      with ch w2 have c: "r0 = None \<longrightarrow> (\<forall>c \<in> set (chunks w2). cd_filesId c \<noteq> fileID)"
        by simp
      from ne evs have "new_events w1 w2 = (?hd @ pre) @ [SrcRead p (Some e), Invoke UsAbort,
              Call (chunksColl b1) (OpDeleteMany (FFilesId fileID)), Return UsAbort r0]"
        by simp
      with c x Returned res f w2 show ?thesis by blast
    qed
    have two: False
      if a: "SrcRead q e0 \<in> set (new_events w1 w2) \<and> (e0 = Some EOF \<or> (q = [] \<and> e0 = None)) \<and>
          (\<forall>q' err. Return (UsWrite q') (Some err) \<notin> set (new_events w1 w2))"
    proof -
      from a ne have "SrcRead q e0 \<in> set evs"
        and "\<forall>q' err. Return (UsWrite q') (Some err) \<notin> set evs" by simp_all
      with loop_events_exhausted [OF le, of q e0] a have "ex = Broke" by blast
      with Returned show False by simp
    qed
    from one two show ?thesis by blast
  next
    case Broke
    with r obtain us3 where o: "us_state us2 = Open" and c: "usClose us2 w3 = (res, us3, w2)"
      by auto
    from usClose_open [OF o c] obtain cs where
      tc: "trace w2 = trace w3 @ Invoke UsClose # cs @ [Return UsClose res]"
      and cs: "list_all is_call cs"
      and d: "res = None \<longrightarrow> (\<exists>d. files w2 = files w3 @ [d] \<and> fd_id d = us_fileID us2 \<and>
                 fd_filename d = us_filename us2)"
      by auto
    from t tc have ne: "new_events w1 w2 = (?hd @ evs) @ Invoke UsClose # cs @ [Return UsClose res]"
      by (simp add: new_events_append)
    from le Broke have na: "Invoke UsAbort \<notin> set (?hd @ evs)" "Invoke UsClose \<notin> set (?hd @ evs)"
      by (auto dest: loop_events_broke_no_abort loop_events_no_close)
    have one: False if a: "SrcRead p (Some e) \<in> set (new_events w1 w2) \<and> e \<noteq> EOF"
    proof -
      from a ne cs have "SrcRead p (Some e) \<in> set evs" by (auto dest: calls_only)
      from loop_events_read_error [OF le this] a Broke show False by simp
    qed
    from ne cs na have "\<exists>pre cs. new_events w1 w2 = pre @ Invoke UsClose # cs @ [Return UsClose res] \<and>
                list_all is_call cs \<and> Invoke UsAbort \<notin> set pre \<and> Invoke UsClose \<notin> set pre"
      by blast
    with one d f id show ?thesis by auto
  qed
qed


lemmas upload_defs =
  UploadFromStreamWithID_def OpenUploadStreamWithID_def checkFirstWrite_def
  parseUploadOptions_def newUploadStream_def usSetWriteDeadline_def usWrite_def usClose_def
  usAbort_def persistChunk_def InsertChunk_def InsertFile_def DeleteMany_def us_chunkLen_def
  ext_call_def emit_def Let_def flushFull.simps

lemmas upload_example_defs =
  example_bucket_def example_coll_def example_world_def empty_world_def
  no_upload_options_def written_bucket_def fails_at_def example_stream_def

lemma uploadLoop_ignores_rest:
  "uploadLoop us (pre @ ([], None) # rest) w = uploadLoop us (pre @ [([], None)]) w"
  by (induction pre arbitrary: us w) (auto simp: Let_def split: option.splits prod.splits)

lemma flushFull_nofault:
  "\<forall>k. faults w k = None \<Longrightarrow> fst (flushFull us w) = None"
proof (induction us w rule: flushFull.induct)
  case (1 us w)
  show ?case
  proof (cases "0 < us_chunkLen us \<and> us_chunkLen us \<le> length (us_buffer us)")
    case False
    then show ?thesis by (auto simp: flushFull.simps [of us w])
  next
    case True
    obtain r1 us1 w1 where p: "persistChunk (us_chunkLen us) us w = (r1, us1, w1)"
      by (cases "persistChunk (us_chunkLen us) us w")
    from p "1.prems" have n: "r1 = None"
      by (auto simp: persistChunk_def InsertChunk_def ext_call_def split: option.splits)
    from persistChunk_facts [OF p] "1.prems" have nf: "\<forall>k. faults w1 k = None" by simp
    from "1.IH" [OF True p [symmetric] n refl nf] True p n show ?thesis
      by (simp add: flushFull.simps [of us w])
  qed
qed

lemma usWrite_nofault:
  assumes "us_state us = Open" and "\<forall>k. faults w k = None" and "usWrite us p w = (r, us', w')"
  shows "r = None \<and>
         us_fileLen us' + length (us_buffer us') = us_fileLen us + length (us_buffer us) + length p"
proof -
  let ?w0 = "emit (Invoke (UsWrite p)) w"
  let ?us0 = "us\<lparr>us_buffer := us_buffer us @ p\<rparr>"
  obtain r1 us1 w1 where f: "flushFull ?us0 ?w0 = (r1, us1, w1)"
    by (cases "flushFull ?us0 ?w0")
  from assms(2) have "\<forall>k. faults ?w0 k = None" by (simp add: emit_def)
  from flushFull_nofault [OF this, of ?us0] f have n: "r1 = None" by simp
  from assms(1,3) f have "r = r1" "us' = us1" by (auto simp: usWrite_def Let_def)
  with n flushFull_facts [OF f] show ?thesis by simp
qed

lemma usClose_nofault:
  assumes "us_state us = Open" and "\<forall>k. faults w k = None" and "usClose us w = (r, us', w')"
  shows "r = None"
  using assms
  by (auto simp: usClose_def persistChunk_def InsertChunk_def InsertFile_def ext_call_def
      emit_def Let_def split: option.splits if_splits)

lemma uploadLoop_nofault:
  "us_state us = Open \<Longrightarrow> \<forall>k. faults w k = None \<Longrightarrow>
   \<forall>(p, e) \<in> set pre. p \<noteq> [] \<and> e = None \<Longrightarrow>
   uploadLoop us (pre @ [([], None)]) w = (ex, us', w') \<Longrightarrow>
     ex = Broke \<and> us_state us' = Open \<and>
     us_fileLen us' + length (us_buffer us') =
       us_fileLen us + length (us_buffer us) + sum_list (map (\<lambda>(p, e). length p) pre) \<and>
     (\<exists>evs. trace w' = trace w @ evs @ [SrcRead [] None])"
proof (induction pre arbitrary: us w)
  case Nil
  then show ?case by (auto simp: Let_def emit_def)
next
  case (Cons a pre)
  from Cons.prems(3) obtain p where a: "a = (p, None)" and p: "p \<noteq> []"
    by (cases a) auto
  let ?w1 = "emit (SrcRead p None) w"
  obtain r us2 w2 where wr: "usWrite us p ?w1 = (r, us2, w2)" by (cases "usWrite us p ?w1")
  from Cons.prems(2) have nf1: "\<forall>k. faults ?w1 k = None" by (simp add: emit_def)
  from usWrite_nofault [OF Cons.prems(1) nf1 wr]
  have r: "r = None"
    and len: "us_fileLen us2 + length (us_buffer us2) =
        us_fileLen us + length (us_buffer us) + length p"
    by simp_all
  from usWrite_facts [OF wr] nf1 Cons.prems(1) obtain cs where
    o: "us_state us2 = Open" and nf2: "\<forall>k. faults w2 k = None"
    and t: "trace w2 = trace ?w1 @ Invoke (UsWrite p) # cs @ [Return (UsWrite p) r]"
    by (auto simp: same_stream_def)
  from Cons.prems(4) a p wr r have l: "uploadLoop us2 (pre @ [([], None)]) w2 = (ex, us', w')"
    by (simp add: Let_def)
  from Cons.prems(3) have g: "\<forall>(p, e) \<in> set pre. p \<noteq> [] \<and> e = None" by simp
  from Cons.IH [OF o nf2 g l] obtain evs where
    ih: "ex = Broke" "us_state us' = Open"
      "us_fileLen us' + length (us_buffer us') =
         us_fileLen us2 + length (us_buffer us2) + sum_list (map (\<lambda>(p, e). length p) pre)"
      "trace w' = trace w2 @ evs @ [SrcRead [] None]"
    by blast
  from ih(4) t have "trace w' = trace w @
      (SrcRead p None # Invoke (UsWrite p) # cs @ Return (UsWrite p) r # evs) @ [SrcRead [] None]"
    by (simp add: emit_def)
  then have "\<exists>evs. trace w' = trace w @ evs @ [SrcRead [] None]" by blast
  with ih len a show ?case by simp
qed


lemma uploadLoop_no_failure:
  "us_state us = Open \<Longrightarrow> \<forall>k. faults w k = None \<Longrightarrow>
   \<forall>(p, e) \<in> set src. e = None \<or> e = Some EOF \<Longrightarrow>
   uploadLoop us src w = (ex, us', w') \<Longrightarrow> ex = Broke \<and> us_state us' = Open"
proof (induction src arbitrary: us w)
  case Nil
  then show ?case by auto
next
  case (Cons a rest)
  obtain p err where a: "a = (p, err)" by (cases a)
  with Cons.prems(3) have noerr: "err = None \<or> err = Some EOF" by simp
  then have sel: "(case err of None \<Rightarrow> None | Some e \<Rightarrow> if e \<noteq> EOF then Some e else None) = None"
    by auto
  let ?w1 = "emit (SrcRead p err) w"
  show ?case
  proof (cases "p = []")
    case True
    with Cons.prems(1,4) a sel show ?thesis by (simp add: Let_def)
  next
    case False
    obtain r us2 w2 where wr: "usWrite us p ?w1 = (r, us2, w2)" by (cases "usWrite us p ?w1")
    from Cons.prems(2) have nf1: "\<forall>k. faults ?w1 k = None" by (simp add: emit_def)
    from usWrite_nofault [OF Cons.prems(1) nf1 wr] have r: "r = None" by simp
    from usWrite_facts [OF wr] nf1 Cons.prems(1)
    have o: "us_state us2 = Open" and nf2: "\<forall>k. faults w2 k = None"
      by (auto simp: same_stream_def)
    show ?thesis
    proof (cases "err = Some EOF")
      case True
      with Cons.prems(4) a sel False wr r o show ?thesis by (simp add: Let_def)
    next
      case ne: False
      with noerr have "err = None" by simp
      with Cons.prems(4) a False wr r have l: "uploadLoop us2 rest w2 = (ex, us', w')"
        by (simp add: Let_def)
      from Cons.prems(3) have g: "\<forall>(p, e) \<in> set rest. e = None \<or> e = Some EOF" by simp
      from Cons.IH [OF o nf2 g l] show ?thesis .
    qed
  qed
qed

lemma UploadFromStreamWithID_no_failure:
  assumes opened: "OpenUploadStreamWithID b fileID fname uo w = (Inr us, b1, w1)"
    and run: "UploadFromStreamWithID b fileID fname src uo w = (res, b2, w2)"
    and nf: "\<forall>k. faults w1 k = None"
    and good: "\<forall>(p, e) \<in> set src. e = None \<or> e = Some EOF"
  shows "res = None \<and>
         (\<exists>pre cs. new_events w1 w2 = pre @ Invoke UsClose # cs @ [Return UsClose None] \<and>
             list_all is_call cs \<and> Invoke UsAbort \<notin> set pre \<and> Invoke UsClose \<notin> set pre) \<and>
         (\<exists>d. files w2 = files w1 @ [d] \<and> fd_id d = fileID \<and> fd_filename d = fname)"
proof -
  let ?us = "us\<lparr>us_writeDeadline := writeDeadline b1\<rparr>"
  let ?w = "emit (Return UsSetWriteDeadline None) (emit (Invoke UsSetWriteDeadline) w1)"
  let ?hd = "[Invoke UsSetWriteDeadline, Return UsSetWriteDeadline None]"
  note o = OpenUploadStreamWithID_Inr [OF opened]
  from o have open1: "us_state ?us = Open" by simp
  from nf have nf1: "\<forall>k. faults ?w k = None" by (simp add: emit_def)
  obtain ex us2 w3 where l: "uploadLoop ?us src ?w = (ex, us2, w3)"
    by (cases "uploadLoop ?us src ?w")
  from uploadLoop_no_failure [OF open1 nf1 good l]
  have ex: "ex = Broke" and o2: "us_state us2 = Open" by simp_all
  from uploadLoop_state [OF open1 l] o nf1
  have id: "us_fileID us2 = fileID" "us_filename us2 = fname" "files w3 = files w1"
    and nf3: "\<forall>k. faults w3 k = None"
    by (simp_all add: emit_def)
  from uploadLoop_events [OF open1 l] ex obtain evs where
    t3: "trace w3 = trace ?w @ evs" and le: "loop_events (us_chunksColl ?us) (us_fileID ?us) Broke evs"
    by auto
  from le have na: "Invoke UsAbort \<notin> set (?hd @ evs)" "Invoke UsClose \<notin> set (?hd @ evs)"
    by (auto dest: loop_events_broke_no_abort loop_events_no_close)
  from run l ex obtain us3 where c: "usClose us2 w3 = (res, us3, w2)"
    unfolding UploadFromStreamWithID_opened [OF opened]
    by (auto split: prod.splits)
  from usClose_nofault [OF o2 nf3 c] have r: "res = None" .
  from usClose_open [OF o2 c] r id obtain cs d where
    tc: "trace w2 = trace w3 @ Invoke UsClose # cs @ [Return UsClose None]"
    and cs: "list_all is_call cs"
    and d: "files w2 = files w1 @ [d]" "fd_id d = fileID" "fd_filename d = fname"
    by auto
  from t3 tc have "new_events w1 w2 = (?hd @ evs) @ Invoke UsClose # cs @ [Return UsClose None]"
    by (simp add: new_events_def emit_def)
  with cs na have "\<exists>pre cs. new_events w1 w2 = pre @ Invoke UsClose # cs @ [Return UsClose None] \<and>
             list_all is_call cs \<and> Invoke UsAbort \<notin> set pre \<and> Invoke UsClose \<notin> set pre"
    by blast
  with r d show ?thesis by blast
qed

text \<open>
  Claim C8. In a run of \<open>UploadFromStreamWithID\<close> that has opened its stream: whenever
  a read of the source returns an error other than \<open>io.EOF\<close>, the events that follow
  are the \<open>Abort\<close> of the stream with its delete of the chunks of the file, none of
  which is left once that delete has succeeded, and then that error is the result. When
  a read has ended the source without an error and no \<open>Write\<close> has failed, \<open>Close\<close>
  is invoked after the loop, nothing having closed or aborted the stream before, and
  its result is the result. When no read of the source returns an error other than
  \<open>io.EOF\<close> and no call fails, the run succeeds: \<open>Close\<close> is invoked and returns
  \<open>nil\<close>, and the metadata document of the file has been added to the files
  collection.
\<close>

theorem UploadFromStreamWithID_abort_or_close:
  assumes opened: "OpenUploadStreamWithID b fileID fname uo w = (Inr us, b1, w1)"
    and run: "UploadFromStreamWithID b fileID fname src uo w = (res, b2, w2)"
  shows "(SrcRead p (Some e) \<in> set (new_events w1 w2) \<and> e \<noteq> EOF \<longrightarrow>
            res = Some e \<and> files w2 = files w1 \<and>
            (\<exists>pre r. new_events w1 w2 =
                pre @ [SrcRead p (Some e), Invoke UsAbort,
                       Call (chunksColl b1) (OpDeleteMany (FFilesId fileID)), Return UsAbort r] \<and>
                (r = None \<longrightarrow> (\<forall>c \<in> set (chunks w2). cd_filesId c \<noteq> fileID))))
       \<and> (SrcRead q e0 \<in> set (new_events w1 w2) \<and> (e0 = Some EOF \<or> (q = [] \<and> e0 = None)) \<and>
          (\<forall>q' err. Return (UsWrite q') (Some err) \<notin> set (new_events w1 w2)) \<longrightarrow>
            (\<exists>pre cs. new_events w1 w2 = pre @ Invoke UsClose # cs @ [Return UsClose res] \<and>
                list_all is_call cs \<and> Invoke UsAbort \<notin> set pre \<and> Invoke UsClose \<notin> set pre) \<and>
            (res = None \<longrightarrow>
               (\<exists>d. files w2 = files w1 @ [d] \<and> fd_id d = fileID \<and> fd_filename d = fname)))
       \<and> ((\<forall>k. faults w1 k = None) \<and> (\<forall>(p, e) \<in> set src. e = None \<or> e = Some EOF) \<longrightarrow>
            res = None \<and>
            (\<exists>pre cs. new_events w1 w2 = pre @ Invoke UsClose # cs @ [Return UsClose None] \<and>
                list_all is_call cs \<and> Invoke UsAbort \<notin> set pre \<and> Invoke UsClose \<notin> set pre) \<and>
            (\<exists>d. files w2 = files w1 @ [d] \<and> fd_id d = fileID \<and> fd_filename d = fname))"
proof -
  note ev = UploadFromStreamWithID_read_error_or_exhausted [OF opened run, of p e q e0]
  have ok: "res = None \<and>
            (\<exists>pre cs. new_events w1 w2 = pre @ Invoke UsClose # cs @ [Return UsClose None] \<and>
                list_all is_call cs \<and> Invoke UsAbort \<notin> set pre \<and> Invoke UsClose \<notin> set pre) \<and>
            (\<exists>d. files w2 = files w1 @ [d] \<and> fd_id d = fileID \<and> fd_filename d = fname)"
    if "(\<forall>k. faults w1 k = None) \<and> (\<forall>(p, e) \<in> set src. e = None \<or> e = Some EOF)"
    using UploadFromStreamWithID_no_failure [OF opened run] that by blast
  from ev ok show ?thesis by blast
qed

theorem UploadFromStreamWithID_abort_or_close_witness:
  "(\<exists>w2. UploadFromStreamWithID written_bucket 11 ''f''
           [([1, 2], None), ([], Some (SourceError 3))] no_upload_options empty_world =
           (Some (SourceError 3), written_bucket, w2) \<and>
         files w2 = [] \<and>
         (\<exists>pre r. trace w2 = pre @ [SrcRead [] (Some (SourceError 3)), Invoke UsAbort,
             Call (example_coll ChunksColl) (OpDeleteMany (FFilesId 11)), Return UsAbort r]))
   \<and> (\<exists>w2 d. UploadFromStreamWithID written_bucket 11 ''f''
           [([1, 2, 3, 4], None), ([5], None), ([], Some EOF)] no_upload_options empty_world =
           (None, written_bucket, w2) \<and>
         files w2 = [d] \<and> fd_id d = 11 \<and> fd_filename d = ''f'' \<and>
         (\<exists>pre cs. trace w2 = pre @ Invoke UsClose # cs @ [Return UsClose None]))
   \<and> (\<exists>w2 d. UploadFromStreamWithID written_bucket 11 ''f''
           [([1, 2, 3, 4], None), ([5], Some EOF)] no_upload_options empty_world =
           (None, written_bucket, w2) \<and>
         files w2 = [d] \<and> fd_id d = 11 \<and> fd_filename d = ''f'')"
proof -
  have opened: "OpenUploadStreamWithID written_bucket 11 ''f'' no_upload_options empty_world =
      (Inr example_stream, written_bucket, empty_world)"
    by (simp add: upload_defs upload_example_defs)
  have e: "trace empty_world = []" "files empty_world = []"
    "chunksColl written_bucket = example_coll ChunksColl"
    by (simp_all add: upload_example_defs)
  have n: "new_events empty_world v = trace v" for v
    by (simp add: new_events_def e)
  have "\<exists>w2. UploadFromStreamWithID written_bucket 11 ''f''
           [([1, 2], None), ([], Some (SourceError 3))] no_upload_options empty_world =
           (Some (SourceError 3), written_bucket, w2) \<and>
         SrcRead [] (Some (SourceError 3)) \<in> set (trace w2)"
    by (simp add: upload_defs upload_example_defs)
  then obtain w2 where run: "UploadFromStreamWithID written_bucket 11 ''f''
           [([1, 2], None), ([], Some (SourceError 3))] no_upload_options empty_world =
           (Some (SourceError 3), written_bucket, w2)"
    and rd: "SrcRead [] (Some (SourceError 3)) \<in> set (trace w2)"
    by blast
  from UploadFromStreamWithID_abort_or_close [OF opened run, of "[]" "SourceError 3"] rd
  have a: "files w2 = [] \<and>
         (\<exists>pre r. trace w2 = pre @ [SrcRead [] (Some (SourceError 3)), Invoke UsAbort,
             Call (example_coll ChunksColl) (OpDeleteMany (FFilesId 11)), Return UsAbort r])"
    by (simp add: n e) blast
  have "\<exists>w3. UploadFromStreamWithID written_bucket 11 ''f''
           [([1, 2, 3, 4], None), ([5], None), ([], Some EOF)] no_upload_options empty_world =
           (None, written_bucket, w3) \<and>
         SrcRead [] (Some EOF) \<in> set (trace w3) \<and>
         (\<forall>q' err. Return (UsWrite q') (Some err) \<notin> set (trace w3))"
    by (simp add: upload_defs upload_example_defs)
  then obtain w3 where run3: "UploadFromStreamWithID written_bucket 11 ''f''
           [([1, 2, 3, 4], None), ([5], None), ([], Some EOF)] no_upload_options empty_world =
           (None, written_bucket, w3)"
    and rd3: "SrcRead [] (Some EOF) \<in> set (trace w3)"
    and nw3: "\<forall>q' err. Return (UsWrite q') (Some err) \<notin> set (trace w3)"
    by blast
  from UploadFromStreamWithID_abort_or_close [OF opened run3, of _ _ "[]" "Some EOF"] rd3 nw3
  have b: "\<exists>d. files w3 = [d] \<and> fd_id d = 11 \<and> fd_filename d = ''f'' \<and>
         (\<exists>pre cs. trace w3 = pre @ Invoke UsClose # cs @ [Return UsClose None])"
    by (simp add: n e) blast
  obtain r4 b4 w4 where run4: "UploadFromStreamWithID written_bucket 11 ''f''
           [([1, 2, 3, 4], None), ([5], Some EOF)] no_upload_options empty_world = (r4, b4, w4)"
    by (cases "UploadFromStreamWithID written_bucket 11 ''f''
           [([1, 2, 3, 4], None), ([5], Some EOF)] no_upload_options empty_world") auto
  have nf: "\<forall>k. faults empty_world k = None" by (simp add: upload_example_defs)
  have good: "\<forall>(p, e) \<in> set [([1, 2, 3, 4 :: byte], None), ([5], Some EOF)]. e = None \<or> e = Some EOF"
    by simp
  from UploadFromStreamWithID_run [OF opened run4] have b4: "b4 = written_bucket" by blast
  from UploadFromStreamWithID_abort_or_close [OF opened run4] nf good e
  have c: "r4 = None \<and> (\<exists>d. files w4 = [d] \<and> fd_id d = 11 \<and> fd_filename d = ''f'')"
    by simp
  from run a run3 b run4 b4 c show ?thesis by blast
qed

text \<open>
  The error paths of \<open>UploadFromStreamWithID\<close> once the stream is open: the stream is
  closed or aborted on each of them but one, the return of the error of a write.
\<close>

lemma UploadFromStreamWithID_error_paths:
  assumes opened: "OpenUploadStreamWithID b fileID fname uo w = (Inr us, b1, w1)"
    and run: "UploadFromStreamWithID b fileID fname src uo w = (Some err, b2, w2)"
  shows "Invoke UsClose \<in> set (new_events w1 w2) \<or> Invoke UsAbort \<in> set (new_events w1 w2)
       \<or> (\<exists>q. last (trace w2) = Return (UsWrite q) (Some err) \<and>
               Invoke UsClose \<notin> set (new_events w1 w2) \<and>
               Invoke UsAbort \<notin> set (new_events w1 w2))"
proof -
  from UploadFromStreamWithID_run [OF opened run] obtain ex us2 w3 evs where
    t: "trace w3 = trace w1 @ [Invoke UsSetWriteDeadline, Return UsSetWriteDeadline None] @ evs"
    and le: "loop_events (chunksColl b1) fileID ex evs"
    and r: "case ex of
              Returned e \<Rightarrow> Some err = Some e \<and> w2 = w3
            | Broke \<Rightarrow> us_state us2 = Open \<and> (\<exists>us3. usClose us2 w3 = (Some err, us3, w2))"
    by blast
  show ?thesis
  proof (cases ex)
    case (Returned e)
    with r have e: "e = err" and w2: "w2 = w3" by simp_all
    from t w2 have ne: "new_events w1 w2 =
        [Invoke UsSetWriteDeadline, Return UsSetWriteDeadline None] @ evs"
      by (simp add: new_events_append)
    from le have nonempty: "evs \<noteq> []" by (rule loop_events_nonempty)
    with t w2 have l: "last (trace w2) = last evs" by simp
    from loop_events_returned [OF le] Returned e loop_events_no_close [OF le] ne l
    show ?thesis by auto
  next
    case Broke
    with r obtain us3 where o: "us_state us2 = Open" and c: "usClose us2 w3 = (Some err, us3, w2)"
      by auto
    from usClose_open [OF o c] t have "Invoke UsClose \<in> set (new_events w1 w2)"
      by (auto simp: new_events_def)
    then show ?thesis by simp
  qed
qed

lemma downloadToStream_closes:
  assumes "downloadToStream b ds w = ((n, err), ds', w')"
  shows "ds_closed ds' \<and> Invoke DsClose \<in> set (new_events w w') \<and>
         (\<exists>r. last (trace w') = Return DsClose r)"
  using assms
  by (auto simp: downloadToStream_def dsSetReadDeadline_def dsCopy_def dsClose_def ext_call_def
      emit_def new_events_def Let_def
      split: option.splits sum.splits if_splits prod.splits)

lemma loop_events_write_failure:
  assumes "loop_events c i ex evs" and "Return (UsWrite q) (Some err) \<in> set evs"
  shows "ex = Returned err \<and> last evs = Return (UsWrite q) (Some err) \<and>
         Invoke UsAbort \<notin> set evs"
  using assms
  by (induction rule: loop_events.induct) (auto dest: calls_only loop_events_nonempty)

text \<open>
  Whenever a \<open>Write\<close> returns an error, \<open>UploadFromStreamWithID\<close> returns that error
  at once: the return of the write is the last event, and the stream has been neither
  closed nor aborted.
\<close>

lemma UploadFromStreamWithID_failed_write:
  assumes opened: "OpenUploadStreamWithID b fileID fname uo w = (Inr us, b1, w1)"
    and run: "UploadFromStreamWithID b fileID fname src uo w = (res, b2, w2)"
    and wf: "Return (UsWrite q) (Some err) \<in> set (new_events w1 w2)"
  shows "res = Some err \<and> last (trace w2) = Return (UsWrite q) (Some err) \<and>
         Invoke UsClose \<notin> set (new_events w1 w2) \<and> Invoke UsAbort \<notin> set (new_events w1 w2)"
proof -
  from UploadFromStreamWithID_run [OF opened run] obtain ex us2 w3 evs where
    t: "trace w3 = trace w1 @ [Invoke UsSetWriteDeadline, Return UsSetWriteDeadline None] @ evs"
    and le: "loop_events (chunksColl b1) fileID ex evs"
    and r: "case ex of
              Returned e \<Rightarrow> res = Some e \<and> w2 = w3
            | Broke \<Rightarrow> us_state us2 = Open \<and> (\<exists>us3. usClose us2 w3 = (res, us3, w2))"
    by blast
  have m: "Return (UsWrite q) (Some err) \<in> set evs"
  proof (cases ex)
    case (Returned e)
    with r t wf show ?thesis by (simp add: new_events_def)
  next
    case Broke
    with r obtain us3 where o: "us_state us2 = Open" and c: "usClose us2 w3 = (res, us3, w2)"
      by auto
    from usClose_open [OF o c] obtain cs where
      "trace w2 = trace w3 @ Invoke UsClose # cs @ [Return UsClose res]" "list_all is_call cs"
      by auto
    with t wf show ?thesis by (auto simp: new_events_def dest: calls_only)
  qed
  from loop_events_write_failure [OF le m]
  have ex: "ex = Returned err" and l: "last evs = Return (UsWrite q) (Some err)"
    and na: "Invoke UsAbort \<notin> set evs"
    by simp_all
  from ex r have res: "res = Some err" and w2: "w2 = w3" by simp_all
  from le have ne: "evs \<noteq> []" by (rule loop_events_nonempty)
  from t w2 have n: "new_events w1 w2 =
      [Invoke UsSetWriteDeadline, Return UsSetWriteDeadline None] @ evs"
    by (simp add: new_events_def)
  from t w2 ne l have "last (trace w2) = Return (UsWrite q) (Some err)" by simp
  with res n na loop_events_no_close [OF le] show ?thesis by simp
qed

lemmas large_defs = large_bucket_def large_stream_def

text \<open>
  Claim C5 fails on the path on which \<open>Write\<close> returns an error. The bucket has a
  chunk size of 16 MiB and the first read of the source fills the read buffer, so the
  write of these bytes persists a chunk, and the insert of the chunk fails:
  \<open>UploadFromStreamWithID\<close> returns the error, the trace ends with the return of the
  write and has neither a \<open>Close\<close> nor an \<open>Abort\<close>, and the stream is still
  \<open>Open\<close> when the loop is left.
\<close>

theorem UploadFromStreamWithID_write_error:
  "fst (UploadFromStreamWithID large_bucket 11 ''f'' [(replicate 16777216 0, None)]
          no_upload_options (empty_world\<lparr>faults := fails_at 4 7\<rparr>)) = Some (StoreError 7)
   \<and> trace (snd (snd (UploadFromStreamWithID large_bucket 11 ''f'' [(replicate 16777216 0, None)]
          no_upload_options (empty_world\<lparr>faults := fails_at 4 7\<rparr>)))) =
       [Invoke UsSetWriteDeadline, Return UsSetWriteDeadline None,
        SrcRead (replicate 16777216 0) None, Invoke (UsWrite (replicate 16777216 0)),
        Call (example_coll ChunksColl)
          (OpInsertChunk \<lparr>cd_filesId = 11, cd_n = 0, cd_data = replicate 16777216 0\<rparr>),
        Return (UsWrite (replicate 16777216 0)) (Some (StoreError 7))]
   \<and> us_state (fst (snd (uploadLoop large_stream [(replicate 16777216 0, None)]
          (empty_world\<lparr>faults := fails_at 2 7\<rparr>)))) = Open"
  by (simp add: upload_defs upload_example_defs large_defs)

lemma loop_events_empty_read:
  assumes "loop_events c i ex evs" and "SrcRead [] None \<in> set evs"
  shows "ex = Broke \<and> (\<exists>pre. evs = pre @ [SrcRead [] None])"
  using assms
proof (induction rule: loop_events.induct)
  case (continues p cs ex evs)
  from continues.prems continues.hyps(1,2) have "SrcRead [] None \<in> set evs"
    by (auto dest: calls_only)
  from continues.IH [OF this] obtain pre where "ex = Broke" "evs = pre @ [SrcRead [] None]"
    by blast
  then have "ex = Broke \<and> SrcRead p None # Invoke (UsWrite p) # cs @ Return (UsWrite p) None # evs =
      (SrcRead p None # Invoke (UsWrite p) # cs @ Return (UsWrite p) None # pre) @ [SrcRead [] None]"
    by simp
  then show ?case by blast
qed (auto dest: calls_only)

text \<open>
  Claim C10. A read that returns no bytes and no error ends the loop: the loop returns
  by \<open>break\<close> at once, later reads of the source never happen, and in a run that has
  opened its stream the events after such a read are those of \<open>Close\<close>, whose result is
  the result of the upload, with the metadata document added on success. When the
  reads before it returned data without an error and no call fails, the upload
  succeeds and the document carries the number of bytes read.
\<close>

theorem UploadFromStreamWithID_empty_read:
  "uploadLoop us (([], None) # rest) w = (Broke, us, emit (SrcRead [] None) w)
   \<and> UploadFromStreamWithID b fileID fname (pre @ ([], None) # rest) uo w =
       UploadFromStreamWithID b fileID fname (pre @ [([], None)]) uo w
   \<and> (OpenUploadStreamWithID b fileID fname uo w = (Inr us1, b1, w1) \<and>
      UploadFromStreamWithID b fileID fname src uo w = (res, b2, w2) \<and>
      SrcRead [] None \<in> set (new_events w1 w2) \<longrightarrow>
        (\<exists>evs cs. new_events w1 w2 =
            evs @ SrcRead [] None # Invoke UsClose # cs @ [Return UsClose res] \<and>
            list_all is_call cs) \<and>
        (res = None \<longrightarrow>
           (\<exists>d. files w2 = files w1 @ [d] \<and> fd_id d = fileID \<and> fd_filename d = fname)))
   \<and> (OpenUploadStreamWithID b fileID fname uo w = (Inr us1, b1, w1) \<and>
      (\<forall>(p, e) \<in> set pre. p \<noteq> [] \<and> e = None) \<and> (\<forall>k. faults w1 k = None) \<longrightarrow>
        (\<exists>w2 d evs cs.
           UploadFromStreamWithID b fileID fname (pre @ ([], None) # rest) uo w = (None, b1, w2) \<and>
           files w2 = files w1 @ [d] \<and> fd_id d = fileID \<and> fd_filename d = fname \<and>
           fd_length d = int (sum_list (map (\<lambda>(p, e). length p) pre)) \<and>
           new_events w1 w2 = evs @ SrcRead [] None # Invoke UsClose # cs @ [Return UsClose None] \<and>
           list_all is_call cs))"
proof (intro conjI impI)
  show "uploadLoop us (([], None) # rest) w = (Broke, us, emit (SrcRead [] None) w)"
    by (simp add: Let_def)
  show "UploadFromStreamWithID b fileID fname (pre @ ([], None) # rest) uo w =
       UploadFromStreamWithID b fileID fname (pre @ [([], None)]) uo w"
    by (auto simp: UploadFromStreamWithID_def uploadLoop_ignores_rest [of _ pre rest]
        split: prod.splits sum.splits option.splits)
next
  assume a: "OpenUploadStreamWithID b fileID fname uo w = (Inr us1, b1, w1) \<and>
      UploadFromStreamWithID b fileID fname src uo w = (res, b2, w2) \<and>
      SrcRead [] None \<in> set (new_events w1 w2)"
  then have opened: "OpenUploadStreamWithID b fileID fname uo w = (Inr us1, b1, w1)"
    and run: "UploadFromStreamWithID b fileID fname src uo w = (res, b2, w2)"
    and rd: "SrcRead [] None \<in> set (new_events w1 w2)"
    by blast+
  from UploadFromStreamWithID_run [OF opened run] obtain ex us2 w3 evs where
    t: "trace w3 = trace w1 @ [Invoke UsSetWriteDeadline, Return UsSetWriteDeadline None] @ evs"
    and le: "loop_events (chunksColl b1) fileID ex evs"
    and f: "files w3 = files w1"
    and id: "us_fileID us2 = fileID" "us_filename us2 = fname"
    and r: "case ex of
              Returned err \<Rightarrow> res = Some err \<and> w2 = w3
            | Broke \<Rightarrow> us_state us2 = Open \<and> (\<exists>us3. usClose us2 w3 = (res, us3, w2))"
    by blast
  have both: "(\<exists>evs cs. new_events w1 w2 =
            evs @ SrcRead [] None # Invoke UsClose # cs @ [Return UsClose res] \<and>
            list_all is_call cs) \<and>
        (res = None \<longrightarrow>
           (\<exists>d. files w2 = files w1 @ [d] \<and> fd_id d = fileID \<and> fd_filename d = fname))"
  proof (cases ex)
    case (Returned err)
    with r have "w2 = w3" by simp
    with t rd have "SrcRead [] None \<in> set evs" by (simp add: new_events_def)
    from loop_events_empty_read [OF le this] Returned show ?thesis by simp
  next
    case Broke
    with r obtain us3 where o: "us_state us2 = Open" and c: "usClose us2 w3 = (res, us3, w2)"
      by auto
    from usClose_open [OF o c] obtain cs where
      tc: "trace w2 = trace w3 @ Invoke UsClose # cs @ [Return UsClose res]"
      and cs: "list_all is_call cs"
      and d: "res = None \<longrightarrow> (\<exists>d. files w2 = files w3 @ [d] \<and> fd_id d = us_fileID us2 \<and>
                 fd_filename d = us_filename us2)"
      by auto
    from t tc rd cs have "SrcRead [] None \<in> set evs"
      by (auto simp: new_events_def dest: calls_only)
    from loop_events_empty_read [OF le this] obtain pre where "evs = pre @ [SrcRead [] None]"
      by blast
    with t tc have "new_events w1 w2 =
        ([Invoke UsSetWriteDeadline, Return UsSetWriteDeadline None] @ pre) @
          SrcRead [] None # Invoke UsClose # cs @ [Return UsClose res]"
      by (simp add: new_events_def)
    with cs have "\<exists>evs cs. new_events w1 w2 =
            evs @ SrcRead [] None # Invoke UsClose # cs @ [Return UsClose res] \<and>
            list_all is_call cs"
      by blast
    moreover from d f id have "res = None \<longrightarrow>
           (\<exists>d. files w2 = files w1 @ [d] \<and> fd_id d = fileID \<and> fd_filename d = fname)"
      by simp
    ultimately show ?thesis by simp
  qed
  from both show "\<exists>evs cs. new_events w1 w2 =
            evs @ SrcRead [] None # Invoke UsClose # cs @ [Return UsClose res] \<and>
            list_all is_call cs"
    by blast
  from both show "res = None \<Longrightarrow>
      \<exists>d. files w2 = files w1 @ [d] \<and> fd_id d = fileID \<and> fd_filename d = fname"
    by blast
next
  assume a: "OpenUploadStreamWithID b fileID fname uo w = (Inr us1, b1, w1) \<and>
      (\<forall>(p, e) \<in> set pre. p \<noteq> [] \<and> e = None) \<and> (\<forall>k. faults w1 k = None)"
  then have opened: "OpenUploadStreamWithID b fileID fname uo w = (Inr us1, b1, w1)"
    and good: "\<forall>(p, e) \<in> set pre. p \<noteq> [] \<and> e = None"
    and nf: "\<forall>k. faults w1 k = None"
    by blast+
  let ?us = "us1\<lparr>us_writeDeadline := writeDeadline b1\<rparr>"
  let ?w = "emit (Return UsSetWriteDeadline None) (emit (Invoke UsSetWriteDeadline) w1)"
  note o = OpenUploadStreamWithID_Inr [OF opened]
  from o have open1: "us_state ?us = Open" by simp
  from nf have nf1: "\<forall>k. faults ?w k = None" by (simp add: emit_def)
  obtain ex us2 w3 where l: "uploadLoop ?us (pre @ [([], None)]) ?w = (ex, us2, w3)"
    by (cases "uploadLoop ?us (pre @ [([], None)]) ?w")
  from uploadLoop_nofault [OF open1 nf1 good l] o obtain evs where
    ex: "ex = Broke" and o2: "us_state us2 = Open"
    and len: "us_fileLen us2 + length (us_buffer us2) = sum_list (map (\<lambda>(p, e). length p) pre)"
    and t3: "trace w3 = trace ?w @ evs @ [SrcRead [] None]"
    by auto
  from uploadLoop_state [OF open1 l] o nf1
  have id: "us_fileID us2 = fileID" "us_filename us2 = fname" "files w3 = files w1"
    and nf3: "\<forall>k. faults w3 k = None"
    by (simp_all add: emit_def)
  obtain r us3 w2 where c: "usClose us2 w3 = (r, us3, w2)" by (cases "usClose us2 w3")
  from usClose_nofault [OF o2 nf3 c] have r: "r = None" .
  from usClose_open [OF o2 c] r id len obtain cs d where
    tc: "trace w2 = trace w3 @ Invoke UsClose # cs @ [Return UsClose None]"
    and cs: "list_all is_call cs"
    and d: "files w2 = files w1 @ [d]" "fd_id d = fileID" "fd_filename d = fname"
      "fd_length d = int (sum_list (map (\<lambda>(p, e). length p) pre))"
    by auto
  have run: "UploadFromStreamWithID b fileID fname (pre @ ([], None) # rest) uo w = (None, b1, w2)"
    unfolding UploadFromStreamWithID_opened [OF opened] uploadLoop_ignores_rest [of _ pre rest]
    using l ex c r by simp
  from t3 tc have "new_events w1 w2 =
      ([Invoke UsSetWriteDeadline, Return UsSetWriteDeadline None] @ evs) @
        SrcRead [] None # Invoke UsClose # cs @ [Return UsClose None]"
    by (simp add: new_events_def emit_def)
  with run d cs show "\<exists>w2 d evs cs.
           UploadFromStreamWithID b fileID fname (pre @ ([], None) # rest) uo w = (None, b1, w2) \<and>
           files w2 = files w1 @ [d] \<and> fd_id d = fileID \<and> fd_filename d = fname \<and>
           fd_length d = int (sum_list (map (\<lambda>(p, e). length p) pre)) \<and>
           new_events w1 w2 = evs @ SrcRead [] None # Invoke UsClose # cs @ [Return UsClose None] \<and>
           list_all is_call cs"
    by blast
qed

theorem UploadFromStreamWithID_empty_read_witness:
  "\<exists>w2 d. UploadFromStreamWithID written_bucket 11 ''f''
        [([1, 2, 3, 4, 5], None), ([], None), ([9], None)] no_upload_options empty_world =
        (None, written_bucket, w2) \<and>
      files w2 = [d] \<and> fd_id d = 11 \<and> fd_length d = 5 \<and> SrcRead [9] None \<notin> set (trace w2) \<and>
      (\<exists>evs cs. trace w2 = evs @ SrcRead [] None # Invoke UsClose # cs @ [Return UsClose None])"
proof -
  have opened: "OpenUploadStreamWithID written_bucket 11 ''f'' no_upload_options empty_world =
      (Inr example_stream, written_bucket, empty_world)"
    by (simp add: upload_defs upload_example_defs)
  have e: "trace empty_world = []" "files empty_world = []" "\<forall>k. faults empty_world k = None"
    by (simp_all add: upload_example_defs)
  have g: "\<forall>(p, e) \<in> set [([1, 2, 3, 4, 5 :: byte], None :: error option)]. p \<noteq> [] \<and> e = None"
    by simp
  note t = UploadFromStreamWithID_empty_read [of example_stream "[([9], None)]" empty_world
      written_bucket 11 "''f''" "[([1, 2, 3, 4, 5], None)]" no_upload_options example_stream
      written_bucket empty_world, THEN conjunct2, THEN conjunct2, THEN conjunct2, rule_format]
  from t [OF conjI [OF opened conjI [OF g e(3)]]]
  obtain w2 d evs cs where
    run0: "UploadFromStreamWithID written_bucket 11 ''f''
        ([([1, 2, 3, 4, 5], None)] @ ([], None) # [([9], None)]) no_upload_options empty_world =
        (None, written_bucket, w2)"
    and d0: "files w2 = files empty_world @ [d]" "fd_id d = 11"
      "fd_length d = int (sum_list (map (\<lambda>(p, e). length p) [([1, 2, 3, 4, 5 :: byte], None :: error option)]))"
    by blast
  from run0 have run: "UploadFromStreamWithID written_bucket 11 ''f''
        [([1, 2, 3, 4, 5], None), ([], None), ([9], None)] no_upload_options empty_world =
        (None, written_bucket, w2)"
    by simp
  from d0 e have d: "files w2 = [d]" "fd_id d = 11" "fd_length d = 5"
    by simp_all
  have "SrcRead [9] None \<notin> set (trace (snd (snd (UploadFromStreamWithID written_bucket 11 ''f''
        [([1, 2, 3, 4, 5], None), ([], None), ([9], None)] no_upload_options empty_world))))"
    by (simp add: upload_defs upload_example_defs)
  with run have n9: "SrcRead [9] None \<notin> set (trace w2)" by simp
  have "SrcRead [] None \<in> set (trace (snd (snd (UploadFromStreamWithID written_bucket 11 ''f''
        [([1, 2, 3, 4, 5], None), ([], None), ([9], None)] no_upload_options empty_world))))"
    by (simp add: upload_defs upload_example_defs)
  with run e have rd: "SrcRead [] None \<in> set (new_events empty_world w2)"
    by (simp add: new_events_def)
  note t3 = UploadFromStreamWithID_empty_read [of example_stream "[]" empty_world
      written_bucket 11 "''f''" "[]" no_upload_options example_stream
      written_bucket empty_world "[([1, 2, 3, 4, 5], None), ([], None), ([9], None)]"
      None written_bucket w2, THEN conjunct2, THEN conjunct2, THEN conjunct1, rule_format]
  from t3 [OF conjI [OF opened conjI [OF run rd]]] e
  have cl: "\<exists>evs cs. trace w2 = evs @ SrcRead [] None # Invoke UsClose # cs @ [Return UsClose None]"
    by (auto simp: new_events_def)
  from run d n9 cl show ?thesis by blast
qed

end
